theory Spec2Isabelle
  imports Complex_Main
begin

section \<open>The gesture state machine of aivirtualmouseproject.py\<close>

text \<open>
  The file embeds the body of the frame loop of \<open>main\<close> and \<open>safe_move_mouse\<close>.
  Python floats (clock readings, screen sizes, distances, smoothed coordinates) are
  modelled as reals, pixel coordinates and finger flags as integers. Every call of
  \<open>time.time()\<close> is a separate input of the frame, named after the line that reads it.
  The overlay (HUD text, FPS counter with \<open>pTime\<close>, rectangle, circle), the video
  writer and the key poll do not touch the gesture state and are left out.
\<close>

subsection \<open>Configuration constants (lines 30 to 40)\<close>

definition wCam :: int where "wCam = 480"
definition hCam :: int where "hCam = 360"
definition frameR :: int where "frameR = 100"
definition smoothening :: real where "smoothening = 3"

definition click_debounce_sec :: real where "click_debounce_sec = 0.12"
definition double_click_threshold :: real where "double_click_threshold = 60"
definition swipe_threshold_px :: int where "swipe_threshold_px = 120"
definition scroll_threshold_px :: int where "scroll_threshold_px = 80"
definition cooldown_swipe_sec :: real where "cooldown_swipe_sec = 0.7"
definition rest_toggle_hold_sec :: real where "rest_toggle_hold_sec = 0.35"

subsection \<open>Runtime state (lines 43 to 47)\<close>

type_synonym sample = "int \<times> int \<times> real"

record state =
  plocX :: real
  plocY :: real
  clocX :: real
  clocY :: real
  last_click_time :: real
  last_action_time :: real
  rest_since :: "real option"
  paused :: bool
  trail :: "sample list"

definition init_state :: state where
  "init_state = \<lparr>plocX = 0, plocY = 0, clocX = 0, clocY = 0,
     last_click_time = 0, last_action_time = 0,
     rest_since = None, paused = False, trail = []\<rparr>"

text \<open>
  \<open>deque(maxlen=5).append\<close>: the new item goes to the right end, and an item is
  dropped from the left end when the length exceeds \<open>maxlen\<close>.
\<close>

definition deque_append :: "nat \<Rightarrow> 'a \<Rightarrow> 'a list \<Rightarrow> 'a list" where
  "deque_append maxlen x xs = (let ys = xs @ [x] in drop (length ys - maxlen) ys)"

definition trail_maxlen :: nat where "trail_maxlen = 5"

subsection \<open>What a frame brings in\<close>

text \<open>
  The detector's answers for one frame: \<open>lmList\<close> holds the landmark positions
  (entry \<open>i\<close> is \<open>lmList[i][1:]\<close>; the list is empty when no hand is seen),
  \<open>fingersUp\<close> is the list \<open>detector.fingersUp()\<close> returns, and \<open>findDistance p q\<close>
  is the first component of \<open>detector.findDistance(p, q, img)\<close>. The detector
  (HandTrackingModule) is not part of the sources, so its answers are inputs. The five
  clock fields are the readings of \<open>time.time()\<close> on lines 111 or 112, 136, 149, 156
  and 160.
\<close>

record frame =
  lmList :: "(int \<times> int) list"
  fingersUp :: "int list"
  findDistance :: "nat \<Rightarrow> nat \<Rightarrow> real"
  t_rest :: real
  t_click :: real
  t_right :: real
  t_trail :: real
  t_dyn :: real

text \<open>
  Modelled from the spec: the body of \<open>detector.findDistance\<close> is missing; the spec
  calls its result the distance between the two landmarks, that is the Euclidean
  distance of the two points.
\<close>

definition distance :: "int \<times> int \<Rightarrow> int \<times> int \<Rightarrow> real" where
  "distance p q =
     sqrt (real_of_int ((fst q - fst p)\<^sup>2 + (snd q - snd p)\<^sup>2))"

text \<open>
  \<open>np.interp(x, (xp0, xp1), (fp0, fp1))\<close> for increasing \<open>xp\<close>: linear between the two
  points, constant outside of them.
\<close>

definition interp :: "real \<Rightarrow> real \<times> real \<Rightarrow> real \<times> real \<Rightarrow> real" where
  "interp x xp fp =
     (if x \<le> fst xp then fst fp
      else if snd xp \<le> x then snd fp
      else fst fp + (x - fst xp) * (snd fp - fst fp) / (snd xp - fst xp))"

subsection \<open>What a frame sends out\<close>

datatype command =
    Mouse_move real real
  | Click
  | DoubleClick
  | Click_right
  | Hotkey "string list"
  | Scroll int

datatype logmsg =
    Mouse_move_ignored
  | Log_paused
  | Log_active
  | Log_left_click
  | Log_double_click
  | Log_right_click
  | Log_swipe_left
  | Log_swipe_right
  | Log_scroll_up
  | Log_scroll_down

datatype effect = Call command | Log logmsg

datatype error = BackendError command | IndexError

text \<open>
  A step returns the backend calls and log lines it made, in order, and either the new
  state or the exception that left the frame loop. The backend is a predicate \<open>ok\<close>:
  a call of a command it rejects raises.
\<close>

type_synonym 'a res = "effect list \<times> (error + 'a)"

definition bind_res :: "'a res \<Rightarrow> ('a \<Rightarrow> 'b res) \<Rightarrow> 'b res" where
  "bind_res r k =
     (case snd r of
        Inl e \<Rightarrow> (fst r, Inl e)
      | Inr s \<Rightarrow> (fst r @ fst (k s), snd (k s)))"

text \<open>
  A pyautogui call outside of any \<open>try\<close>, followed by the timer update and the log
  line: when the call raises, neither of the two happens.
\<close>

definition call :: "(command \<Rightarrow> bool) \<Rightarrow> command \<Rightarrow> logmsg \<Rightarrow> state \<Rightarrow> state res" where
  "call ok c msg s' =
     (if ok c then ([Call c, Log msg], Inr s') else ([Call c], Inl (BackendError c)))"

subsection \<open>safe_move_mouse (lines 57 to 63)\<close>

definition safe_move_mouse ::
  "(command \<Rightarrow> bool) \<Rightarrow> real \<Rightarrow> real \<Rightarrow> real \<Rightarrow> real \<Rightarrow> effect list" where
  "safe_move_mouse ok x y wScr hScr =
     (let x' = max 0 (min (wScr - 1) x);
          y' = max 0 (min (hScr - 1) y)
      in if ok (Mouse_move x' y') then [Call (Mouse_move x' y')]
         else [Call (Mouse_move x' y'), Log Mouse_move_ignored])"

subsection \<open>The frame loop body (lines 103 to 182)\<close>

text \<open>Lines 110 to 117: the pause toggle.\<close>

definition pause_toggle :: "real \<Rightarrow> int list \<Rightarrow> state \<Rightarrow> effect list \<times> state" where
  "pause_toggle now fs s =
     (if fs = [0, 0, 0, 0, 0] then
        (case rest_since s of
           None \<Rightarrow> ([], s\<lparr>rest_since := Some now\<rparr>)
         | Some r \<Rightarrow>
             if now - r \<ge> rest_toggle_hold_sec
             then ([Log (if \<not> paused s then Log_paused else Log_active)],
                   s\<lparr>paused := \<not> paused s, rest_since := None\<rparr>)
             else ([], s))
      else ([], s\<lparr>rest_since := None\<rparr>))"

text \<open>
  Lines 124 to 131: the cursor move. \<open>fingers[1]\<close> is the first index read of the
  finger list and raises IndexError on a list shorter than two.
\<close>

definition cursor_move ::
  "(command \<Rightarrow> bool) \<Rightarrow> real \<Rightarrow> real \<Rightarrow> int \<Rightarrow> int \<Rightarrow> int list \<Rightarrow> state \<Rightarrow> state res" where
  "cursor_move ok wScr hScr x1 y1 fs s =
     (if length fs \<le> 1 then ([], Inl IndexError)
      else if fs ! 1 = 1 \<and> sum_list fs = 1 then
        (let x3 = interp (real_of_int x1)
                    (real_of_int frameR, real_of_int (wCam - frameR)) (0, wScr);
             y3 = interp (real_of_int y1)
                    (real_of_int frameR, real_of_int (hCam - frameR)) (0, hScr);
             cx = plocX s + (x3 - plocX s) / smoothening;
             cy = plocY s + (y3 - plocY s) / smoothening
         in (safe_move_mouse ok (wScr - cx) cy wScr hScr,
             Inr (s\<lparr>clocX := cx, clocY := cy, plocX := cx, plocY := cy\<rparr>)))
      else ([], Inr s))"

text \<open>
  Lines 134 to 144: left click and double click; \<open>d1\<close> is the \<open>length\<close> of line 135.
  \<open>fingers[2]\<close> is read only when \<open>fingers[1] == 1\<close>, and raises IndexError on a
  list of two.
\<close>

definition click_check ::
  "(command \<Rightarrow> bool) \<Rightarrow> int list \<Rightarrow> real \<Rightarrow> real \<Rightarrow> state \<Rightarrow> state res" where
  "click_check ok fs d1 now s =
     (if fs ! 1 = 1 \<and> length fs \<le> 2 then ([], Inl IndexError)
      else if fs ! 1 = 1 \<and> fs ! 2 = 1 then
        if d1 < 35 \<and> now - last_click_time s > click_debounce_sec
        then call ok Click Log_left_click (s\<lparr>last_click_time := now\<rparr>)
        else if d1 > double_click_threshold \<and> now - last_click_time s > click_debounce_sec
        then call ok DoubleClick Log_double_click (s\<lparr>last_click_time := now\<rparr>)
        else ([], Inr s)
      else ([], Inr s))"

text \<open>
  Lines 147 to 153: right click. Line 124 has read \<open>fingers[1]\<close> before, so the two
  index reads of line 147 are in range whenever the frame gets here.
\<close>

definition right_click_check ::
  "(command \<Rightarrow> bool) \<Rightarrow> int list \<Rightarrow> real \<Rightarrow> real \<Rightarrow> state \<Rightarrow> state res" where
  "right_click_check ok fs lengthTI now s =
     (if fs ! 0 = 1 \<and> fs ! 1 = 1 then
        if lengthTI < 30 \<and> now - last_click_time s > click_debounce_sec
        then call ok Click_right Log_right_click (s\<lparr>last_click_time := now\<rparr>)
        else ([], Inr s)
      else ([], Inr s))"

text \<open>Lines 158 and 159: the displacement between \<open>trail[-1]\<close> and \<open>trail[0]\<close>.\<close>

definition trail_dx :: "sample list \<Rightarrow> int" where
  "trail_dx tr = fst (last tr) - fst (hd tr)"

definition trail_dy :: "sample list \<Rightarrow> int" where
  "trail_dy tr = fst (snd (last tr)) - fst (snd (hd tr))"

text \<open>Lines 163 to 171: swipes with the open palm.\<close>

definition swipe_check ::
  "(command \<Rightarrow> bool) \<Rightarrow> int list \<Rightarrow> int \<Rightarrow> int \<Rightarrow> real \<Rightarrow> state \<Rightarrow> state res" where
  "swipe_check ok fs dx dy now s =
     (if fs = [1, 1, 1, 1, 1] \<and> now - last_action_time s > cooldown_swipe_sec then
        if dx \<le> - swipe_threshold_px \<and> real_of_int \<bar>dy\<bar> < real_of_int swipe_threshold_px / 2
        then call ok (Hotkey [''ctrl'', ''a'']) Log_swipe_left (s\<lparr>last_action_time := now\<rparr>)
        else if dx \<ge> swipe_threshold_px \<and> real_of_int \<bar>dy\<bar> < real_of_int swipe_threshold_px / 2
        then call ok (Hotkey [''ctrl'', ''c'']) Log_swipe_right (s\<lparr>last_action_time := now\<rparr>)
        else ([], Inr s)
      else ([], Inr s))"

text \<open>
  Lines 174 to 182: scroll with the palm or the index finger; \<open>fingers[1]\<close> is in range
  here for the same reason.
\<close>

definition scroll_check ::
  "(command \<Rightarrow> bool) \<Rightarrow> int list \<Rightarrow> int \<Rightarrow> real \<Rightarrow> state \<Rightarrow> state res" where
  "scroll_check ok fs dy now s =
     (if (fs = [1, 1, 1, 1, 1] \<or> (fs ! 1 = 1 \<and> sum_list fs \<le> 2))
         \<and> now - last_action_time s > 0.2 then
        if dy \<le> - scroll_threshold_px
        then call ok (Scroll 60) Log_scroll_up (s\<lparr>last_action_time := now\<rparr>)
        else if dy \<ge> scroll_threshold_px
        then call ok (Scroll (- 60)) Log_scroll_down (s\<lparr>last_action_time := now\<rparr>)
        else ([], Inr s)
      else ([], Inr s))"

text \<open>Lines 156 to 182: the trail and the gestures read from it.\<close>

definition dynamic_gestures ::
  "(command \<Rightarrow> bool) \<Rightarrow> int list \<Rightarrow> int \<Rightarrow> int \<Rightarrow> real \<Rightarrow> real \<Rightarrow> state \<Rightarrow> state res" where
  "dynamic_gestures ok fs x1 y1 t now s =
     (let s1 = s\<lparr>trail := deque_append trail_maxlen (x1, y1, t) (trail s)\<rparr>
      in if length (trail s1) \<ge> 2 then
           (let dx = trail_dx (trail s1); dy = trail_dy (trail s1)
            in bind_res (swipe_check ok fs dx dy now s1) (scroll_check ok fs dy now))
         else ([], Inr s1))"

text \<open>
  Lines 103 to 182: one frame. Lines 104 to 106 read the landmarks 8, 12 and 4 and
  raise IndexError on a list of fewer than 13 landmarks.
\<close>

definition frame_step ::
  "(command \<Rightarrow> bool) \<Rightarrow> real \<Rightarrow> real \<Rightarrow> frame \<Rightarrow> state \<Rightarrow> state res" where
  "frame_step ok wScr hScr fr s =
     (if lmList fr \<noteq> [] then
        if length (lmList fr) \<le> 12 then ([], Inl IndexError)
        else
          (let x1 = fst (lmList fr ! 8); y1 = snd (lmList fr ! 8);
               fs = fingersUp fr;
               (out1, s1) = pause_toggle (t_rest fr) fs s
           in if \<not> paused s1 then
                bind_res (out1, Inr s1) (\<lambda>s2.
                bind_res (cursor_move ok wScr hScr x1 y1 fs s2) (\<lambda>s3.
                bind_res (click_check ok fs (findDistance fr 8 12) (t_click fr) s3) (\<lambda>s4.
                bind_res (right_click_check ok fs (findDistance fr 4 8) (t_right fr) s4)
                  (dynamic_gestures ok fs x1 y1 (t_trail fr) (t_dyn fr)))))
              else (out1, Inr s1))
      else ([], Inr s))"

text \<open>Lines 91 to 194: the loop over the frames the source delivers.\<close>

fun main_loop ::
  "(command \<Rightarrow> bool) \<Rightarrow> real \<Rightarrow> real \<Rightarrow> frame list \<Rightarrow> state \<Rightarrow> state res" where
  "main_loop ok wScr hScr [] s = ([], Inr s)"
| "main_loop ok wScr hScr (fr # frs) s =
     bind_res (frame_step ok wScr hScr fr s) (main_loop ok wScr hScr frs)"

subsection \<open>Notions the properties are stated with\<close>

text \<open>The trail after a sequence of appends (line 156, frame after frame).\<close>

fun pushes :: "sample list \<Rightarrow> sample list \<Rightarrow> sample list" where
  "pushes tr [] = tr"
| "pushes tr (e # es) = pushes (deque_append trail_maxlen e tr) es"

text \<open>A pause toggle shows as the log line of line 115.\<close>

definition is_toggle :: "effect \<Rightarrow> bool" where
  "is_toggle e = (e = Log Log_paused \<or> e = Log Log_active)"

definition toggles :: "effect list \<Rightarrow> nat" where
  "toggles out = length (filter is_toggle out)"

text \<open>A frame that shows a fist: a hand with all of its landmarks and no finger up.\<close>

definition is_fist :: "frame \<Rightarrow> bool" where
  "is_fist fr = (13 \<le> length (lmList fr) \<and> fingersUp fr = [0, 0, 0, 0, 0])"

text \<open>Number of calls of a command among the effects.\<close>

definition calls :: "command \<Rightarrow> effect list \<Rightarrow> nat" where
  "calls c out = length (filter (\<lambda>e. e = Call c) out)"

subsection \<open>Concrete frames and backends\<close>

text \<open>A backend that accepts every command, and one whose left click raises.\<close>

definition backend_ok :: "command \<Rightarrow> bool" where
  "backend_ok c = True"

definition backend_no_click :: "command \<Rightarrow> bool" where
  "backend_no_click c = (c \<noteq> Click)"

text \<open>A backend whose mouse move raises.\<close>

definition backend_no_move :: "command \<Rightarrow> bool" where
  "backend_no_move c = (case c of Mouse_move x y \<Rightarrow> False | _ \<Rightarrow> True)"

text \<open>The 21 landmarks of a hand with the given thumb, index and middle tips.\<close>

definition landmarks :: "int \<times> int \<Rightarrow> int \<times> int \<Rightarrow> int \<times> int \<Rightarrow> (int \<times> int) list" where
  "landmarks th ix mi = (replicate 21 (0, 0))[4 := th, 8 := ix, 12 := mi]"

text \<open>A detector that answers \<open>d\<close> for every pair of landmarks.\<close>

definition fixed_distance :: "real \<Rightarrow> nat \<Rightarrow> nat \<Rightarrow> real" where
  "fixed_distance d p q = d"

text \<open>A frame all of whose clock readings are \<open>t\<close>, with the distances \<open>d\<close>.\<close>

definition frame_at ::
  "(int \<times> int) list \<Rightarrow> int list \<Rightarrow> (nat \<Rightarrow> nat \<Rightarrow> real) \<Rightarrow> real \<Rightarrow> frame" where
  "frame_at lms fs d t =
     \<lparr>lmList = lms, fingersUp = fs, findDistance = d,
      t_rest = t, t_click = t, t_right = t, t_trail = t, t_dyn = t\<rparr>"

text \<open>The frame no hand is seen in.\<close>

definition no_hand :: "real \<Rightarrow> frame" where
  "no_hand t = frame_at [] [] (fixed_distance 0) t"

text \<open>A fist at the clock reading \<open>t\<close>.\<close>

definition fist_frame :: "real \<Rightarrow> frame" where
  "fist_frame t =
     frame_at (landmarks (150, 220) (200, 200) (210, 205)) [0, 0, 0, 0, 0] (fixed_distance 40) t"

text \<open>
  The frame of the scenario with index and middle finger up, index tip (200, 200) and
  middle tip (210, 205); its distances are Euclidean.
\<close>

definition landmark_distance :: "(int \<times> int) list \<Rightarrow> nat \<Rightarrow> nat \<Rightarrow> real" where
  "landmark_distance lms p q = distance (lms ! p) (lms ! q)"

definition click_frame :: "real \<Rightarrow> frame" where
  "click_frame t =
     frame_at (landmarks (150, 220) (200, 200) (210, 205)) [0, 1, 1, 0, 0]
       (landmark_distance (landmarks (150, 220) (200, 200) (210, 205))) t"

text \<open>The index finger alone, its tip at \<open>p\<close>.\<close>

definition point_frame :: "int \<times> int \<Rightarrow> real \<Rightarrow> frame" where
  "point_frame p t =
     frame_at (landmarks (150, 220) p (210, 205)) [0, 1, 0, 0, 0] (fixed_distance 40) t"

text \<open>Index and middle finger up, the detector giving the distance \<open>d\<close>.\<close>

definition two_finger_frame :: "real \<Rightarrow> real \<Rightarrow> frame" where
  "two_finger_frame d t =
     frame_at (landmarks (150, 220) (200, 200) (210, 205)) [0, 1, 1, 0, 0] (fixed_distance d) t"

text \<open>An open palm, the index tip at \<open>p\<close>; the detector gives the distance 50.\<close>

definition palm_frame :: "int \<times> int \<Rightarrow> real \<Rightarrow> frame" where
  "palm_frame p t =
     frame_at (landmarks (150, 220) p (210, 205)) [1, 1, 1, 1, 1] (fixed_distance 50) t"

text \<open>An active session whose trail holds one sample, taken at (300, 200).\<close>

definition one_sample_state :: state where
  "one_sample_state = init_state\<lparr>trail := [(300, 200, 0.5)]\<rparr>"

text \<open>An open palm whose index and middle tip are 20 apart for the detector.\<close>

definition close_palm_frame :: "int \<times> int \<Rightarrow> real \<Rightarrow> frame" where
  "close_palm_frame p t =
     frame_at (landmarks (150, 220) p (210, 205)) [1, 1, 1, 1, 1] (fixed_distance 20) t"

text \<open>
  A paused session with an armed fist timer: the state after fists read at the clock
  values 10, 10.5 and 11.
\<close>

definition paused_state :: state where
  "paused_state = init_state\<lparr>rest_since := Some 11, paused := True, trail := [(200, 200, 10)]\<rparr>"

text \<open>The sample line 156 appends on a frame.\<close>

definition sample_of :: "frame \<Rightarrow> sample" where
  "sample_of fr = (fst (lmList fr ! 8), snd (lmList fr ! 8), t_trail fr)"

text \<open>
  The oldest sample the trail retains once \<open>e\<close> has been appended to \<open>tr\<close>: the first
  of all while fewer than \<open>trail_maxlen\<close> samples are held, the second of \<open>tr\<close> once
  \<open>tr\<close> is full.
\<close>

definition oldest_retained :: "sample list \<Rightarrow> sample \<Rightarrow> sample" where
  "oldest_retained tr e = (tr @ [e]) ! (Suc (length tr) - trail_maxlen)"

text \<open>
  Six frames of an open palm whose index tip is at x = 0 first, then four times at
  x = 100 and last at x = 150, and a seventh frame with the tip at x = 225.
\<close>

definition palm_run :: "frame list" where
  "palm_run = [palm_frame (0, 200) 10, palm_frame (100, 200) 10.1, palm_frame (100, 200) 10.2,
     palm_frame (100, 200) 10.3, palm_frame (100, 200) 10.4, palm_frame (150, 200) 10.5]"

section \<open>Basic facts\<close>

lemmas threshold_defs =
  click_debounce_sec_def double_click_threshold_def swipe_threshold_px_def
  scroll_threshold_px_def cooldown_swipe_sec_def rest_toggle_hold_sec_def

lemmas camera_defs = wCam_def hCam_def frameR_def smoothening_def

subsection \<open>Sequencing\<close>

lemma bind_res_Inr [simp]: "bind_res (out, Inr s) k = (out @ fst (k s), snd (k s))"
  by (simp add: bind_res_def)

lemma bind_res_Inl [simp]: "bind_res (out, Inl e) k = (out, Inl e)"
  by (simp add: bind_res_def)

lemma fst_bind_res_Inr: "snd r = Inr s \<Longrightarrow> fst (bind_res r k) = fst r @ fst (k s)"
  by (simp add: bind_res_def)

lemma fst_bind_res_Inl: "snd r = Inl e \<Longrightarrow> fst (bind_res r k) = fst r"
  by (simp add: bind_res_def)

lemma set_fst_bind_res:
  "e \<in> set (fst (bind_res r k)) \<Longrightarrow>
   e \<in> set (fst r) \<or> (\<exists>s. snd r = Inr s \<and> e \<in> set (fst (k s)))"
  by (cases "snd r") (auto simp: bind_res_def)

lemma snd_bind_res_Inr_iff:
  "snd (bind_res r k) = Inr s' \<longleftrightarrow> (\<exists>s. snd r = Inr s \<and> snd (k s) = Inr s')"
  by (cases "snd r") (auto simp: bind_res_def)

subsection \<open>The bounded deque\<close>

lemma length_deque_append_le: "length xs \<le> n \<Longrightarrow> length (deque_append n x xs) \<le> n"
  by (simp add: deque_append_def Let_def)

lemma deque_append_short: "length xs < n \<Longrightarrow> deque_append n x xs = xs @ [x]"
  by (simp add: deque_append_def Let_def)

lemma deque_append_full:
  "length xs = n \<Longrightarrow> 0 < n \<Longrightarrow> deque_append n x xs = tl xs @ [x]"
  by (cases xs) (simp_all add: deque_append_def Let_def)

lemma drop_deque_append:
  assumes "length tr \<le> n" and "0 < n"
  shows "drop (length (deque_append n e tr) + length es - n) (deque_append n e tr @ es)
       = drop (length tr + Suc (length es) - n) (tr @ e # es)"
proof (cases "length tr < n")
  case True
  then show ?thesis by (simp add: deque_append_short)
next
  case False
  with assms have full: "length tr = n" by simp
  with assms obtain a tr' where tr: "tr = a # tr'" by (cases tr) auto
  have "deque_append n e tr = tr' @ [e]"
    using deque_append_full [OF full \<open>0 < n\<close>] tr by simp
  then show ?thesis using full tr by simp
qed

lemma pushes_drop:
  "length tr \<le> trail_maxlen \<Longrightarrow>
   pushes tr es = drop (length tr + length es - trail_maxlen) (tr @ es)"
proof (induction es arbitrary: tr)
  case Nil
  then show ?case by simp
next
  case (Cons e es)
  let ?tr' = "deque_append trail_maxlen e tr"
  have pos: "0 < trail_maxlen" by (simp add: trail_maxlen_def)
  have len: "length ?tr' \<le> trail_maxlen"
    using Cons.prems by (rule length_deque_append_le)
  have "pushes tr (e # es) = pushes ?tr' es" by simp
  also have "\<dots> = drop (length ?tr' + length es - trail_maxlen) (?tr' @ es)"
    using len by (rule Cons.IH)
  also have "\<dots> = drop (length tr + length (e # es) - trail_maxlen) (tr @ e # es)"
    using drop_deque_append [OF Cons.prems pos] by simp
  finally show ?case .
qed

lemma pushes_Nil_drop: "pushes [] es = drop (length es - 5) es"
  using pushes_drop [of "[]" es] by (simp add: trail_maxlen_def)

subsection \<open>What each step sends out\<close>

lemma pause_toggle_effects:
  "e \<in> set (fst (pause_toggle now fs s)) \<Longrightarrow> e = Log Log_paused \<or> e = Log Log_active"
  by (auto simp: pause_toggle_def split: if_splits option.splits)

lemma safe_move_mouse_effects:
  "e \<in> set (safe_move_mouse ok x y wScr hScr) \<Longrightarrow>
   e = Call (Mouse_move (max 0 (min (wScr - 1) x)) (max 0 (min (hScr - 1) y)))
   \<or> e = Log Mouse_move_ignored"
  by (auto simp: safe_move_mouse_def Let_def split: if_splits)

lemma cursor_move_effects:
  "e \<in> set (fst (cursor_move ok wScr hScr x1 y1 fs s)) \<Longrightarrow>
   (\<exists>x y. e = Call (Mouse_move (max 0 (min (wScr - 1) x)) (max 0 (min (hScr - 1) y))))
   \<or> e = Log Mouse_move_ignored"
  by (auto simp: cursor_move_def Let_def split: if_splits dest!: safe_move_mouse_effects)

lemma click_check_effects:
  "e \<in> set (fst (click_check ok fs d1 now s)) \<Longrightarrow>
   e = Call Click \<or> e = Log Log_left_click \<or> e = Call DoubleClick \<or> e = Log Log_double_click"
  by (auto simp: click_check_def call_def split: if_splits)

lemma right_click_check_effects:
  "e \<in> set (fst (right_click_check ok fs d2 now s)) \<Longrightarrow>
   e = Call Click_right \<or> e = Log Log_right_click"
  by (auto simp: right_click_check_def call_def split: if_splits)

lemma swipe_check_effects:
  "e \<in> set (fst (swipe_check ok fs dx dy now s)) \<Longrightarrow>
   e = Call (Hotkey [''ctrl'', ''a'']) \<or> e = Log Log_swipe_left
   \<or> e = Call (Hotkey [''ctrl'', ''c'']) \<or> e = Log Log_swipe_right"
  by (auto simp: swipe_check_def call_def split: if_splits)

lemma scroll_check_effects:
  "e \<in> set (fst (scroll_check ok fs dy now s)) \<Longrightarrow>
   e = Call (Scroll 60) \<or> e = Log Log_scroll_up
   \<or> e = Call (Scroll (- 60)) \<or> e = Log Log_scroll_down"
  by (auto simp: scroll_check_def call_def split: if_splits)

lemma dynamic_gestures_effects:
  "e \<in> set (fst (dynamic_gestures ok fs x1 y1 t now s)) \<Longrightarrow>
   (\<exists>dx dy s1. e \<in> set (fst (swipe_check ok fs dx dy now s1)))
   \<or> (\<exists>dy s2. e \<in> set (fst (scroll_check ok fs dy now s2)))"
  by (auto simp: dynamic_gestures_def Let_def split: if_splits dest!: set_fst_bind_res)

lemma frame_step_effects:
  assumes "e \<in> set (fst (frame_step ok wScr hScr fr s))"
  shows "e \<in> set (fst (pause_toggle (t_rest fr) (fingersUp fr) s))
     \<or> (\<exists>s2. e \<in> set (fst (cursor_move ok wScr hScr
                 (fst (lmList fr ! 8)) (snd (lmList fr ! 8)) (fingersUp fr) s2)))
     \<or> (\<exists>s3. e \<in> set (fst (click_check ok (fingersUp fr) (findDistance fr 8 12) (t_click fr) s3)))
     \<or> (\<exists>s4. e \<in> set (fst (right_click_check ok (fingersUp fr) (findDistance fr 4 8) (t_right fr) s4)))
     \<or> (\<exists>s5. e \<in> set (fst (dynamic_gestures ok (fingersUp fr)
                 (fst (lmList fr ! 8)) (snd (lmList fr ! 8)) (t_trail fr) (t_dyn fr) s5)))"
  using assms
  by (auto simp: frame_step_def Let_def split: if_splits prod.splits dest!: set_fst_bind_res)


subsection \<open>What each step leaves alone\<close>

lemma pause_toggle_keeps:
  "trail (snd (pause_toggle now fs s)) = trail s
   \<and> last_click_time (snd (pause_toggle now fs s)) = last_click_time s
   \<and> last_action_time (snd (pause_toggle now fs s)) = last_action_time s
   \<and> plocX (snd (pause_toggle now fs s)) = plocX s
   \<and> plocY (snd (pause_toggle now fs s)) = plocY s
   \<and> clocX (snd (pause_toggle now fs s)) = clocX s
   \<and> clocY (snd (pause_toggle now fs s)) = clocY s"
  by (simp add: pause_toggle_def split: option.splits)

lemma pause_toggle_not_fist:
  "fs \<noteq> [0, 0, 0, 0, 0] \<Longrightarrow> pause_toggle now fs s = ([], s\<lparr>rest_since := None\<rparr>)"
  by (simp add: pause_toggle_def)

lemma cursor_move_keeps:
  "snd (cursor_move ok wScr hScr x1 y1 fs s) = Inr s' \<Longrightarrow>
   trail s' = trail s \<and> last_click_time s' = last_click_time s
   \<and> last_action_time s' = last_action_time s
   \<and> paused s' = paused s \<and> rest_since s' = rest_since s"
  by (auto simp: cursor_move_def Let_def split: if_splits)

lemma click_check_keeps:
  "snd (click_check ok fs d1 now s) = Inr s' \<Longrightarrow>
   trail s' = trail s \<and> last_action_time s' = last_action_time s
   \<and> paused s' = paused s \<and> rest_since s' = rest_since s
   \<and> plocX s' = plocX s \<and> plocY s' = plocY s
   \<and> clocX s' = clocX s \<and> clocY s' = clocY s"
  by (auto simp: click_check_def call_def split: if_splits)

lemma right_click_check_keeps:
  "snd (right_click_check ok fs d2 now s) = Inr s' \<Longrightarrow>
   trail s' = trail s \<and> last_action_time s' = last_action_time s
   \<and> paused s' = paused s \<and> rest_since s' = rest_since s
   \<and> plocX s' = plocX s \<and> plocY s' = plocY s
   \<and> clocX s' = clocX s \<and> clocY s' = clocY s"
  by (auto simp: right_click_check_def call_def split: if_splits)

lemma swipe_check_keeps:
  "snd (swipe_check ok fs dx dy now s) = Inr s' \<Longrightarrow>
   trail s' = trail s \<and> last_click_time s' = last_click_time s
   \<and> paused s' = paused s \<and> rest_since s' = rest_since s
   \<and> plocX s' = plocX s \<and> plocY s' = plocY s
   \<and> clocX s' = clocX s \<and> clocY s' = clocY s"
  by (auto simp: swipe_check_def call_def split: if_splits)

lemma scroll_check_keeps:
  "snd (scroll_check ok fs dy now s) = Inr s' \<Longrightarrow>
   trail s' = trail s \<and> last_click_time s' = last_click_time s
   \<and> paused s' = paused s \<and> rest_since s' = rest_since s
   \<and> plocX s' = plocX s \<and> plocY s' = plocY s
   \<and> clocX s' = clocX s \<and> clocY s' = clocY s"
  by (auto simp: scroll_check_def call_def split: if_splits)

lemma dynamic_gestures_keeps:
  assumes "snd (dynamic_gestures ok fs x1 y1 t now s) = Inr s'"
  shows "trail s' = deque_append trail_maxlen (x1, y1, t) (trail s)
   \<and> last_click_time s' = last_click_time s
   \<and> paused s' = paused s \<and> rest_since s' = rest_since s
   \<and> plocX s' = plocX s \<and> plocY s' = plocY s
   \<and> clocX s' = clocX s \<and> clocY s' = clocY s"
proof (cases "2 \<le> length (deque_append trail_maxlen (x1, y1, t) (trail s))")
  case False
  with assms show ?thesis by (auto simp: dynamic_gestures_def Let_def)
next
  case True
  let ?s1 = "s\<lparr>trail := deque_append trail_maxlen (x1, y1, t) (trail s)\<rparr>"
  from True assms obtain sa where
    a: "snd (swipe_check ok fs (trail_dx (trail ?s1)) (trail_dy (trail ?s1)) now ?s1) = Inr sa"
    and b: "snd (scroll_check ok fs (trail_dy (trail ?s1)) now sa) = Inr s'"
    by (auto simp: dynamic_gestures_def Let_def snd_bind_res_Inr_iff)
  from swipe_check_keeps [OF a] scroll_check_keeps [OF b] show ?thesis by simp
qed

lemma frame_step_Inr:
  assumes "snd (frame_step ok wScr hScr fr s) = Inr s'"
  shows "(lmList fr = [] \<and> s' = s)
    \<or> (12 < length (lmList fr)
        \<and> paused (snd (pause_toggle (t_rest fr) (fingersUp fr) s))
        \<and> s' = snd (pause_toggle (t_rest fr) (fingersUp fr) s))
    \<or> (12 < length (lmList fr)
        \<and> \<not> paused (snd (pause_toggle (t_rest fr) (fingersUp fr) s))
        \<and> (\<exists>s3 s4 s5.
             snd (cursor_move ok wScr hScr (fst (lmList fr ! 8)) (snd (lmList fr ! 8))
                   (fingersUp fr) (snd (pause_toggle (t_rest fr) (fingersUp fr) s))) = Inr s3
           \<and> snd (click_check ok (fingersUp fr) (findDistance fr 8 12) (t_click fr) s3) = Inr s4
           \<and> snd (right_click_check ok (fingersUp fr) (findDistance fr 4 8) (t_right fr) s4) = Inr s5
           \<and> snd (dynamic_gestures ok (fingersUp fr) (fst (lmList fr ! 8)) (snd (lmList fr ! 8))
                   (t_trail fr) (t_dyn fr) s5) = Inr s'))"
  using assms
  by (auto simp: frame_step_def Let_def snd_bind_res_Inr_iff split: if_splits prod.splits)

lemma frame_step_trail:
  assumes "snd (frame_step ok wScr hScr fr s) = Inr s'"
  shows "trail s' = trail s
     \<or> trail s' = deque_append trail_maxlen
                    (fst (lmList fr ! 8), snd (lmList fr ! 8), t_trail fr) (trail s)"
  using frame_step_Inr [OF assms] pause_toggle_keeps [of "t_rest fr" "fingersUp fr" s]
  by (auto dest!: cursor_move_keeps click_check_keeps right_click_check_keeps
        dynamic_gestures_keeps)

lemma pushes_snoc: "pushes tr (es @ [e]) = deque_append trail_maxlen e (pushes tr es)"
  by (induction es arbitrary: tr) simp_all

lemma main_loop_trail:
  "snd (main_loop ok wScr hScr frs s) = Inr s' \<Longrightarrow> trail s = pushes [] es0 \<Longrightarrow>
   \<exists>es. trail s' = pushes [] es"
proof (induction frs arbitrary: s es0)
  case Nil
  then show ?case by auto
next
  case (Cons fr frs)
  from Cons.prems(1) obtain s1 where
    s1: "snd (frame_step ok wScr hScr fr s) = Inr s1"
    and rest: "snd (main_loop ok wScr hScr frs s1) = Inr s'"
    by (auto simp: snd_bind_res_Inr_iff)
  from frame_step_trail [OF s1] Cons.prems(2)
  have "trail s1 = pushes [] es0
      \<or> trail s1 = pushes [] (es0 @ [(fst (lmList fr ! 8), snd (lmList fr ! 8), t_trail fr)])"
    by (auto simp: pushes_snoc)
  then show ?case using Cons.IH [OF rest] by blast
qed

subsection \<open>Evaluating concrete frames\<close>

lemmas eval_defs =
  frame_step_def pause_toggle_def cursor_move_def click_check_def right_click_check_def
  dynamic_gestures_def swipe_check_def scroll_check_def call_def safe_move_mouse_def
  deque_append_def trail_maxlen_def trail_dx_def trail_dy_def interp_def
  threshold_defs camera_defs init_state_def
  frame_at_def fist_frame_def click_frame_def no_hand_def landmarks_def
  backend_ok_def backend_no_click_def
  fixed_distance_def backend_no_move_def point_frame_def two_finger_frame_def palm_frame_def
  one_sample_state_def paused_state_def palm_run_def
  close_palm_frame_def Let_def


section \<open>The trail buffer\<close>

lemma trail_displacement:
  assumes "2 \<le> length es"
  shows "trail_dx (pushes [] es) = fst (last es) - fst (es ! (length es - 5))"
    and "trail_dy (pushes [] es) = fst (snd (last es)) - fst (snd (es ! (length es - 5)))"
proof -
  from assms have d: "length es - 5 < length es" by simp
  then have ne: "drop (length es - 5) es \<noteq> []" by simp
  have l: "last (drop (length es - 5) es) = last es"
    using d by simp
  have h: "hd (drop (length es - 5) es) = es ! (length es - 5)"
    using d by (simp add: hd_drop_conv_nth)
  show "trail_dx (pushes [] es) = fst (last es) - fst (es ! (length es - 5))"
    by (simp add: pushes_Nil_drop trail_dx_def l h)
  show "trail_dy (pushes [] es) = fst (snd (last es)) - fst (snd (es ! (length es - 5)))"
    by (simp add: pushes_Nil_drop trail_dy_def l h)
qed

lemma dynamic_gestures_first_sample:
  "dynamic_gestures ok fs x1 y1 t now (s\<lparr>trail := []\<rparr>)
   = ([], Inr (s\<lparr>trail := [(x1, y1, t)]\<rparr>))"
  by (simp add: dynamic_gestures_def deque_append_def trail_maxlen_def Let_def)

section \<open>The coordinates passed to the backend\<close>

text \<open>
  C4. On a screen of at least one pixel in each direction, every mouse move a frame
  passes to the backend has its coordinates in the screen: x from 0 to wScr - 1 and y
  from 0 to hScr - 1, wherever the index tip is and whatever the smoothing state was.
\<close>

theorem move_within_screen:
  assumes "Call (Mouse_move x y) \<in> set (fst (frame_step ok wScr hScr fr s))"
    and "1 \<le> wScr" and "1 \<le> hScr"
  shows "0 \<le> x \<and> x \<le> wScr - 1 \<and> x < wScr \<and> 0 \<le> y \<and> y \<le> hScr - 1 \<and> y < hScr"
proof -
  from frame_step_effects [OF assms(1)]
  have "\<exists>a b. x = max 0 (min (wScr - 1) a) \<and> y = max 0 (min (hScr - 1) b)"
    by (auto dest!: pause_toggle_effects cursor_move_effects click_check_effects
          right_click_check_effects dynamic_gestures_effects swipe_check_effects
          scroll_check_effects)
  then show ?thesis using assms(2,3) by auto
qed

theorem move_within_screen_witness:
  "Call (Mouse_move 1919 0)
     \<in> set (fst (frame_step backend_ok 1920 1080
          (point_frame (50, 50) 10) init_state))
   \<and> (1 :: real) \<le> 1920 \<and> (1 :: real) \<le> 1080
   \<and> (0 :: real) \<le> 1919 \<and> (1919 :: real) \<le> 1920 - 1 \<and> (1919 :: real) < 1920
   \<and> (0 :: real) \<le> 0 \<and> (0 :: real) \<le> 1080 - 1 \<and> (0 :: real) < 1080"
proof -
  have m: "Call (Mouse_move 1919 0)
     \<in> set (fst (frame_step backend_ok 1920 1080
          (point_frame (50, 50) 10) init_state))"
    by (simp add: eval_defs)
  from move_within_screen [OF m] m show ?thesis by simp
qed


section \<open>Frames of an active session\<close>

lemma frame_step_active:
  assumes "12 < length (lmList fr)" and "fingersUp fr \<noteq> [0, 0, 0, 0, 0]" and "\<not> paused s"
  shows "frame_step ok wScr hScr fr s =
     bind_res (cursor_move ok wScr hScr (fst (lmList fr ! 8)) (snd (lmList fr ! 8))
                 (fingersUp fr) (s\<lparr>rest_since := None\<rparr>)) (\<lambda>s3.
     bind_res (click_check ok (fingersUp fr) (findDistance fr 8 12) (t_click fr) s3) (\<lambda>s4.
     bind_res (right_click_check ok (fingersUp fr) (findDistance fr 4 8) (t_right fr) s4)
       (dynamic_gestures ok (fingersUp fr) (fst (lmList fr ! 8)) (snd (lmList fr ! 8))
          (t_trail fr) (t_dyn fr))))"
proof -
  from assms(1) have "lmList fr \<noteq> []" by auto
  with assms show ?thesis
    by (simp add: frame_step_def pause_toggle_not_fist Let_def)
qed

lemma cursor_move_Inr:
  "1 < length fs \<Longrightarrow> \<exists>s'. snd (cursor_move ok wScr hScr x1 y1 fs s) = Inr s'"
  by (simp add: cursor_move_def Let_def)

lemma click_check_Click:
  "Call Click \<in> set (fst (click_check ok fs d1 now s)) \<Longrightarrow> d1 < 35"
  by (auto simp: click_check_def call_def split: if_splits)

lemma click_check_DoubleClick:
  "Call DoubleClick \<in> set (fst (click_check ok fs d1 now s)) \<Longrightarrow> 60 < d1"
  by (auto simp: click_check_def call_def threshold_defs split: if_splits)

lemma click_check_fires:
  assumes "fs ! 1 = 1" and "fs ! 2 = 1" and "2 < length fs"
    and "click_debounce_sec < now - last_click_time s"
  shows "d1 < 35 \<Longrightarrow> Call Click \<in> set (fst (click_check ok fs d1 now s))"
    and "60 < d1 \<Longrightarrow> Call DoubleClick \<in> set (fst (click_check ok fs d1 now s))"
  using assms by (auto simp: click_check_def call_def threshold_defs)

text \<open>In an active frame the click check runs on the timers the frame started with.\<close>

lemma frame_step_click_part:
  assumes "12 < length (lmList fr)" and "fingersUp fr \<noteq> [0, 0, 0, 0, 0]" and "\<not> paused s"
    and "1 < length (fingersUp fr)"
  obtains s3 where "last_click_time s3 = last_click_time s"
    and "set (fst (click_check ok (fingersUp fr) (findDistance fr 8 12) (t_click fr) s3))
          \<subseteq> set (fst (frame_step ok wScr hScr fr s))"
proof -
  from cursor_move_Inr [OF assms(4)] obtain s3 where
    s3: "snd (cursor_move ok wScr hScr (fst (lmList fr ! 8)) (snd (lmList fr ! 8))
                 (fingersUp fr) (s\<lparr>rest_since := None\<rparr>)) = Inr s3"
    by blast
  from cursor_move_keeps [OF s3] have t: "last_click_time s3 = last_click_time s" by simp
  have "set (fst (click_check ok (fingersUp fr) (findDistance fr 8 12) (t_click fr) s3))
          \<subseteq> set (fst (frame_step ok wScr hScr fr s))"
    unfolding frame_step_active [OF assms(1-3)]
    by (cases "snd (click_check ok (fingersUp fr) (findDistance fr 8 12) (t_click fr) s3)")
       (auto simp: fst_bind_res_Inr [OF s3] fst_bind_res_Inr fst_bind_res_Inl)
  with t show thesis by (rule that)
qed

section \<open>The displacement read from the trail\<close>

lemma deque_append_hd_last:
  shows "hd (deque_append trail_maxlen e tr) = oldest_retained tr e"
    and "last (deque_append trail_maxlen e tr) = e"
proof -
  let ?k = "Suc (length tr) - trail_maxlen"
  have k: "?k < length (tr @ [e])" by (simp add: trail_maxlen_def)
  have d: "deque_append trail_maxlen e tr = drop ?k (tr @ [e])"
    unfolding deque_append_def Let_def by simp
  show "hd (deque_append trail_maxlen e tr) = oldest_retained tr e"
    unfolding d oldest_retained_def by (rule hd_drop_conv_nth [OF k])
  have "last (drop ?k (tr @ [e])) = last (tr @ [e])" by (rule last_drop [OF k])
  then show "last (deque_append trail_maxlen e tr) = e"
    unfolding d by simp
qed

lemma length_deque_append_ge2_iff:
  "2 \<le> length (deque_append trail_maxlen e tr) \<longleftrightarrow> tr \<noteq> []"
  by (cases tr) (auto simp: deque_append_def trail_maxlen_def Let_def)

text \<open>
  Lines 156 to 182 with the displacement written out: the swipe and the scroll check
  are run on the frame's own sample minus the oldest sample retained.
\<close>

lemma dynamic_gestures_newest_oldest:
  assumes "trail s \<noteq> []"
  shows "dynamic_gestures ok fs x1 y1 t now s =
     bind_res
       (swipe_check ok fs (x1 - fst (oldest_retained (trail s) (x1, y1, t)))
          (y1 - fst (snd (oldest_retained (trail s) (x1, y1, t)))) now
          (s\<lparr>trail := deque_append trail_maxlen (x1, y1, t) (trail s)\<rparr>))
       (scroll_check ok fs (y1 - fst (snd (oldest_retained (trail s) (x1, y1, t)))) now)"
  using assms
  by (simp add: dynamic_gestures_def Let_def length_deque_append_ge2_iff trail_dx_def
        trail_dy_def deque_append_hd_last)

lemma dynamic_gestures_no_sample:
  "trail s = [] \<Longrightarrow> fst (dynamic_gestures ok fs x1 y1 t now s) = []"
  by (simp add: dynamic_gestures_def Let_def length_deque_append_ge2_iff)

lemma swipe_then_scroll_calls:
  shows "Call (Hotkey [''ctrl'', ''a''])
           \<in> set (fst (bind_res (swipe_check ok fs dx dy now s) (scroll_check ok fs dy now)))
         \<longleftrightarrow> fs = [1, 1, 1, 1, 1] \<and> cooldown_swipe_sec < now - last_action_time s
           \<and> dx \<le> - 120 \<and> \<bar>dy\<bar> < 60"
    and "Call (Hotkey [''ctrl'', ''c''])
           \<in> set (fst (bind_res (swipe_check ok fs dx dy now s) (scroll_check ok fs dy now)))
         \<longleftrightarrow> fs = [1, 1, 1, 1, 1] \<and> cooldown_swipe_sec < now - last_action_time s
           \<and> 120 \<le> dx \<and> \<bar>dy\<bar> < 60"
    and "Call (Scroll 60)
           \<in> set (fst (bind_res (swipe_check ok fs dx dy now s) (scroll_check ok fs dy now)))
         \<longleftrightarrow> (fs = [1, 1, 1, 1, 1] \<or> fs ! 1 = 1 \<and> sum_list fs \<le> 2)
           \<and> 0.2 < now - last_action_time s \<and> dy \<le> - 80"
    and "Call (Scroll (- 60))
           \<in> set (fst (bind_res (swipe_check ok fs dx dy now s) (scroll_check ok fs dy now)))
         \<longleftrightarrow> (fs = [1, 1, 1, 1, 1] \<or> fs ! 1 = 1 \<and> sum_list fs \<le> 2)
           \<and> 0.2 < now - last_action_time s \<and> 80 \<le> dy"
proof -
  have r: "real_of_int \<bar>dy\<bar> < 60 \<longleftrightarrow> \<bar>dy\<bar> < 60" by linarith
  show "Call (Hotkey [''ctrl'', ''a''])
           \<in> set (fst (bind_res (swipe_check ok fs dx dy now s) (scroll_check ok fs dy now)))
         \<longleftrightarrow> fs = [1, 1, 1, 1, 1] \<and> cooldown_swipe_sec < now - last_action_time s
           \<and> dx \<le> - 120 \<and> \<bar>dy\<bar> < 60"
    by (auto simp: bind_res_def swipe_check_def scroll_check_def call_def r
          swipe_threshold_px_def scroll_threshold_px_def cooldown_swipe_sec_def split: if_splits)
  show "Call (Hotkey [''ctrl'', ''c''])
           \<in> set (fst (bind_res (swipe_check ok fs dx dy now s) (scroll_check ok fs dy now)))
         \<longleftrightarrow> fs = [1, 1, 1, 1, 1] \<and> cooldown_swipe_sec < now - last_action_time s
           \<and> 120 \<le> dx \<and> \<bar>dy\<bar> < 60"
    by (auto simp: bind_res_def swipe_check_def scroll_check_def call_def r
          swipe_threshold_px_def scroll_threshold_px_def cooldown_swipe_sec_def split: if_splits)
  show "Call (Scroll 60)
           \<in> set (fst (bind_res (swipe_check ok fs dx dy now s) (scroll_check ok fs dy now)))
         \<longleftrightarrow> (fs = [1, 1, 1, 1, 1] \<or> fs ! 1 = 1 \<and> sum_list fs \<le> 2)
           \<and> 0.2 < now - last_action_time s \<and> dy \<le> - 80"
    by (auto simp: bind_res_def swipe_check_def scroll_check_def call_def r
          swipe_threshold_px_def scroll_threshold_px_def cooldown_swipe_sec_def split: if_splits)
  show "Call (Scroll (- 60))
           \<in> set (fst (bind_res (swipe_check ok fs dx dy now s) (scroll_check ok fs dy now)))
         \<longleftrightarrow> (fs = [1, 1, 1, 1, 1] \<or> fs ! 1 = 1 \<and> sum_list fs \<le> 2)
           \<and> 0.2 < now - last_action_time s \<and> 80 \<le> dy"
    by (auto simp: bind_res_def swipe_check_def scroll_check_def call_def r
          swipe_threshold_px_def scroll_threshold_px_def cooldown_swipe_sec_def split: if_splits)
qed

text \<open>An active frame of a hand that is not a fist reaches line 156.\<close>

lemma active_frame_trail:
  assumes "snd (frame_step ok wScr hScr fr s) = Inr s'"
    and "12 < length (lmList fr)" and "fingersUp fr \<noteq> [0, 0, 0, 0, 0]" and "\<not> paused s"
  shows "trail s' = deque_append trail_maxlen (sample_of fr) (trail s) \<and> \<not> paused s'"
proof -
  from assms(1) obtain s3 s4 s5 where
    "snd (cursor_move ok wScr hScr (fst (lmList fr ! 8)) (snd (lmList fr ! 8))
           (fingersUp fr) (s\<lparr>rest_since := None\<rparr>)) = Inr s3"
    "snd (click_check ok (fingersUp fr) (findDistance fr 8 12) (t_click fr) s3) = Inr s4"
    "snd (right_click_check ok (fingersUp fr) (findDistance fr 4 8) (t_right fr) s4) = Inr s5"
    "snd (dynamic_gestures ok (fingersUp fr) (fst (lmList fr ! 8)) (snd (lmList fr ! 8))
           (t_trail fr) (t_dyn fr) s5) = Inr s'"
    unfolding frame_step_active [OF assms(2-4)]
    by (auto simp: snd_bind_res_Inr_iff)
  from cursor_move_keeps [OF this(1)] click_check_keeps [OF this(2)]
    right_click_check_keeps [OF this(3)] dynamic_gestures_keeps [OF this(4)] assms(4)
  show ?thesis by (simp add: sample_of_def)
qed

lemma main_loop_active_trail:
  assumes "\<forall>fr \<in> set frs. 12 < length (lmList fr) \<and> fingersUp fr \<noteq> [0, 0, 0, 0, 0]"
    and "\<not> paused s" and "snd (main_loop ok wScr hScr frs s) = Inr s'"
  shows "trail s' = pushes (trail s) (map sample_of frs) \<and> \<not> paused s'"
  using assms
proof (induction frs arbitrary: s)
  case Nil
  then show ?case by simp
next
  case (Cons fr frs)
  from Cons.prems(3) obtain s1 where
    s1: "snd (frame_step ok wScr hScr fr s) = Inr s1"
    and rest: "snd (main_loop ok wScr hScr frs s1) = Inr s'"
    by (auto simp: snd_bind_res_Inr_iff)
  from Cons.prems(1) have fr: "12 < length (lmList fr)" "fingersUp fr \<noteq> [0, 0, 0, 0, 0]"
    and frs: "\<forall>fr \<in> set frs. 12 < length (lmList fr) \<and> fingersUp fr \<noteq> [0, 0, 0, 0, 0]"
    by auto
  from active_frame_trail [OF s1 fr Cons.prems(2)]
  have t1: "trail s1 = deque_append trail_maxlen (sample_of fr) (trail s)" and p1: "\<not> paused s1"
    by simp_all
  from Cons.IH [OF frs p1 rest] show ?case by (simp add: t1)
qed

text \<open>
  C7. The trail never holds more than 5 samples and drops the oldest first: after any
  sequence of appends it is the last 5 of the samples appended, the trail of every state
  the frame loop reaches from the initial state has at most 5 samples, and after a run
  of frames of a hand that is not a fist it is the last 5 of the samples of these frames.
  With at least 2 samples the displacement of lines 158 and 159 is the newest sample
  minus the oldest one retained, and this is the displacement the frame decides on: on
  a trail that held a sample before, lines 156 to 182 call the swipe hotkeys and the
  scrolls exactly when the finger list, the timer and the frame's own sample minus the
  oldest retained sample meet the conditions of lines 163 to 179. On an empty trail the
  frame's sample is appended and neither the swipe nor the scroll check runs: no call,
  no log line, no other change of the state.
\<close>

theorem trail_fifo_displacement:
  "length (pushes [] es) \<le> 5
   \<and> pushes [] es = drop (length es - 5) es
   \<and> (2 \<le> length es \<longrightarrow>
        trail_dx (pushes [] es) = fst (last es) - fst (es ! (length es - 5))
      \<and> trail_dy (pushes [] es) = fst (snd (last es)) - fst (snd (es ! (length es - 5))))
   \<and> dynamic_gestures ok fs x1 y1 t now (s\<lparr>trail := []\<rparr>)
       = ([], Inr (s\<lparr>trail := [(x1, y1, t)]\<rparr>))
   \<and> (\<forall>s'. snd (main_loop ok wScr hScr frs init_state) = Inr s' \<longrightarrow>
         (\<exists>es'. trail s' = pushes [] es') \<and> length (trail s') \<le> 5)
   \<and> ((\<forall>fr \<in> set frs. 12 < length (lmList fr) \<and> fingersUp fr \<noteq> [0, 0, 0, 0, 0]) \<longrightarrow>
        (\<forall>s'. snd (main_loop ok wScr hScr frs init_state) = Inr s' \<longrightarrow>
           trail s' = drop (length frs - 5) (map sample_of frs)))
   \<and> (trail s = [] \<longrightarrow> fst (dynamic_gestures ok fs x1 y1 t now s) = [])
   \<and> (trail s \<noteq> [] \<longrightarrow>
        (Call (Hotkey [''ctrl'', ''a'']) \<in> set (fst (dynamic_gestures ok fs x1 y1 t now s))
          \<longleftrightarrow> fs = [1, 1, 1, 1, 1] \<and> cooldown_swipe_sec < now - last_action_time s
            \<and> x1 - fst (oldest_retained (trail s) (x1, y1, t)) \<le> - 120
            \<and> \<bar>y1 - fst (snd (oldest_retained (trail s) (x1, y1, t)))\<bar> < 60)
      \<and> (Call (Hotkey [''ctrl'', ''c'']) \<in> set (fst (dynamic_gestures ok fs x1 y1 t now s))
          \<longleftrightarrow> fs = [1, 1, 1, 1, 1] \<and> cooldown_swipe_sec < now - last_action_time s
            \<and> 120 \<le> x1 - fst (oldest_retained (trail s) (x1, y1, t))
            \<and> \<bar>y1 - fst (snd (oldest_retained (trail s) (x1, y1, t)))\<bar> < 60)
      \<and> (Call (Scroll 60) \<in> set (fst (dynamic_gestures ok fs x1 y1 t now s))
          \<longleftrightarrow> (fs = [1, 1, 1, 1, 1] \<or> fs ! 1 = 1 \<and> sum_list fs \<le> 2)
            \<and> 0.2 < now - last_action_time s
            \<and> y1 - fst (snd (oldest_retained (trail s) (x1, y1, t))) \<le> - 80)
      \<and> (Call (Scroll (- 60)) \<in> set (fst (dynamic_gestures ok fs x1 y1 t now s))
          \<longleftrightarrow> (fs = [1, 1, 1, 1, 1] \<or> fs ! 1 = 1 \<and> sum_list fs \<le> 2)
            \<and> 0.2 < now - last_action_time s
            \<and> 80 \<le> y1 - fst (snd (oldest_retained (trail s) (x1, y1, t)))))"
proof -
  have a: "pushes [] es = drop (length es - 5) es" for es :: "sample list"
    by (rule pushes_Nil_drop)
  have b: "length (pushes [] es) \<le> 5" for es :: "sample list"
    by (simp add: a)
  have c: "(\<exists>es'. trail s' = pushes [] es') \<and> length (trail s') \<le> 5"
    if "snd (main_loop ok wScr hScr frs init_state) = Inr s'" for s'
  proof -
    have "trail init_state = pushes [] []" by (simp add: init_state_def)
    from main_loop_trail [OF that this] obtain es' where "trail s' = pushes [] es'" ..
    then show ?thesis using b [of es'] by auto
  qed
  have d: "trail s' = drop (length frs - 5) (map sample_of frs)"
    if "\<forall>fr \<in> set frs. 12 < length (lmList fr) \<and> fingersUp fr \<noteq> [0, 0, 0, 0, 0]"
      and "snd (main_loop ok wScr hScr frs init_state) = Inr s'" for s'
  proof -
    have "\<not> paused init_state" by (simp add: init_state_def)
    from main_loop_active_trail [OF that(1) this that(2)]
    show ?thesis by (simp add: init_state_def a)
  qed
  have e: "fst (dynamic_gestures ok fs x1 y1 t now s) = []" if "trail s = []"
    using that by (rule dynamic_gestures_no_sample)
  have f: "(Call (Hotkey [''ctrl'', ''a'']) \<in> set (fst (dynamic_gestures ok fs x1 y1 t now s))
          \<longleftrightarrow> fs = [1, 1, 1, 1, 1] \<and> cooldown_swipe_sec < now - last_action_time s
            \<and> x1 - fst (oldest_retained (trail s) (x1, y1, t)) \<le> - 120
            \<and> \<bar>y1 - fst (snd (oldest_retained (trail s) (x1, y1, t)))\<bar> < 60)
      \<and> (Call (Hotkey [''ctrl'', ''c'']) \<in> set (fst (dynamic_gestures ok fs x1 y1 t now s))
          \<longleftrightarrow> fs = [1, 1, 1, 1, 1] \<and> cooldown_swipe_sec < now - last_action_time s
            \<and> 120 \<le> x1 - fst (oldest_retained (trail s) (x1, y1, t))
            \<and> \<bar>y1 - fst (snd (oldest_retained (trail s) (x1, y1, t)))\<bar> < 60)
      \<and> (Call (Scroll 60) \<in> set (fst (dynamic_gestures ok fs x1 y1 t now s))
          \<longleftrightarrow> (fs = [1, 1, 1, 1, 1] \<or> fs ! 1 = 1 \<and> sum_list fs \<le> 2)
            \<and> 0.2 < now - last_action_time s
            \<and> y1 - fst (snd (oldest_retained (trail s) (x1, y1, t))) \<le> - 80)
      \<and> (Call (Scroll (- 60)) \<in> set (fst (dynamic_gestures ok fs x1 y1 t now s))
          \<longleftrightarrow> (fs = [1, 1, 1, 1, 1] \<or> fs ! 1 = 1 \<and> sum_list fs \<le> 2)
            \<and> 0.2 < now - last_action_time s
            \<and> 80 \<le> y1 - fst (snd (oldest_retained (trail s) (x1, y1, t))))"
    if "trail s \<noteq> []"
    unfolding dynamic_gestures_newest_oldest [OF that]
    by (simp add: swipe_then_scroll_calls)
  show ?thesis
    using a b c d e f trail_displacement dynamic_gestures_first_sample by blast
qed


theorem trail_fifo_displacement_witness:
  "2 \<le> length [(0, 0, 1), (10, 5, 2), (20, 7, 3), (30, 9, 4), (40, 11, 5), (55, 12, 6 :: real)]
   \<and> trail_dx (pushes [] [(0, 0, 1), (10, 5, 2), (20, 7, 3), (30, 9, 4), (40, 11, 5), (55, 12, 6)]) = 45
   \<and> trail_dy (pushes [] [(0, 0, 1), (10, 5, 2), (20, 7, 3), (30, 9, 4), (40, 11, 5), (55, 12, 6)]) = 7
   \<and> pushes [] [(0, 0, 1), (10, 5, 2), (20, 7, 3), (30, 9, 4), (40, 11, 5), (55, 12, 6)]
       = [(10, 5, 2), (20, 7, 3), (30, 9, 4), (40, 11, 5), (55, 12, 6)]
   \<and> main_loop backend_ok 1920 1080 palm_run init_state
       = ([], Inr (init_state\<lparr>trail :=
            [(100, 200, 10.1), (100, 200, 10.2), (100, 200, 10.3), (100, 200, 10.4),
             (150, 200, 10.5)]\<rparr>))
   \<and> drop (length palm_run - 5) (map sample_of palm_run)
       = [(100, 200, 10.1), (100, 200, 10.2), (100, 200, 10.3), (100, 200, 10.4),
          (150, 200, 10.5)]
   \<and> oldest_retained
        [(100, 200, 10.1), (100, 200, 10.2), (100, 200, 10.3), (100, 200, 10.4),
         (150, 200, 10.5)] (225, 200, 10.6) = (100, 200, 10.2)
   \<and> Call (Hotkey [''ctrl'', ''c''])
        \<in> set (fst (dynamic_gestures backend_ok [1, 1, 1, 1, 1] 225 200 10.6 10.6
             (init_state\<lparr>trail :=
                [(100, 200, 10.1), (100, 200, 10.2), (100, 200, 10.3), (100, 200, 10.4),
                 (150, 200, 10.5)]\<rparr>)))"
proof -
  let ?S = "init_state\<lparr>trail := [(100, 200, 10.1), (100, 200, 10.2), (100, 200, 10.3), (100, 200, 10.4),
             (150, 200, 10.5)]\<rparr>"
  have c1: "2 \<le> length [(0, 0, 1), (10, 5, 2), (20, 7, 3), (30, 9, 4), (40, 11, 5), (55, 12, 6 :: real)]"
    by simp
  have c2: "trail_dx (pushes [] [(0, 0, 1), (10, 5, 2), (20, 7, 3), (30, 9, 4), (40, 11, 5), (55, 12, 6)]) = 45"
    and c3: "trail_dy (pushes [] [(0, 0, 1), (10, 5, 2), (20, 7, 3), (30, 9, 4), (40, 11, 5), (55, 12, 6)]) = 7"
    and c4: "pushes [] [(0, 0, 1), (10, 5, 2), (20, 7, 3), (30, 9, 4), (40, 11, 5), (55, 12, 6)]
       = [(10, 5, 2), (20, 7, 3), (30, 9, 4), (40, 11, 5), (55, 12, 6)]"
    by (simp_all add: deque_append_def trail_maxlen_def trail_dx_def trail_dy_def)
  have c5: "main_loop backend_ok 1920 1080 palm_run init_state = ([], Inr ?S)"
    by (simp add: eval_defs)
  have c6: "drop (length palm_run - 5) (map sample_of palm_run) = [(100, 200, 10.1), (100, 200, 10.2), (100, 200, 10.3), (100, 200, 10.4),
             (150, 200, 10.5)]"
    by (simp add: palm_run_def sample_of_def palm_frame_def frame_at_def landmarks_def)
  have c7: "oldest_retained [(100, 200, 10.1), (100, 200, 10.2), (100, 200, 10.3), (100, 200, 10.4),
             (150, 200, 10.5)] (225, 200, 10.6) = (100, 200, 10.2)"
    by (simp add: oldest_retained_def trail_maxlen_def)
  note T = trail_fifo_displacement
      [of "[(0, 0, 1), (10, 5, 2), (20, 7, 3), (30, 9, 4), (40, 11, 5), (55, 12, 6)]" backend_ok "[1, 1, 1, 1, 1]" 225 200 "10.6" "10.6" ?S 1920 1080 palm_run]
  from T have f: "trail ?S \<noteq> [] \<longrightarrow>
        (Call (Hotkey [''ctrl'', ''a''])
            \<in> set (fst (dynamic_gestures backend_ok [1, 1, 1, 1, 1] 225 200 10.6 10.6 ?S))
          \<longleftrightarrow> [1, 1, 1, 1, 1] = [1, 1, 1, 1, 1 :: int]
            \<and> cooldown_swipe_sec < 10.6 - last_action_time ?S
            \<and> 225 - fst (oldest_retained (trail ?S) (225, 200, 10.6)) \<le> - 120
            \<and> \<bar>200 - fst (snd (oldest_retained (trail ?S) (225, 200, 10.6)))\<bar> < 60)
      \<and> (Call (Hotkey [''ctrl'', ''c''])
            \<in> set (fst (dynamic_gestures backend_ok [1, 1, 1, 1, 1] 225 200 10.6 10.6 ?S))
          \<longleftrightarrow> [1, 1, 1, 1, 1] = [1, 1, 1, 1, 1 :: int]
            \<and> cooldown_swipe_sec < 10.6 - last_action_time ?S
            \<and> 120 \<le> 225 - fst (oldest_retained (trail ?S) (225, 200, 10.6))
            \<and> \<bar>200 - fst (snd (oldest_retained (trail ?S) (225, 200, 10.6)))\<bar> < 60)"
    by blast
  have "trail ?S = [(100, 200, 10.1), (100, 200, 10.2), (100, 200, 10.3), (100, 200, 10.4),
             (150, 200, 10.5)]" by simp
  with f c7 have c8: "Call (Hotkey [''ctrl'', ''c''])
        \<in> set (fst (dynamic_gestures backend_ok [1, 1, 1, 1, 1] 225 200 10.6 10.6 ?S))"
    by (simp add: init_state_def cooldown_swipe_sec_def)
  from c1 c2 c3 c4 c5 c6 c7 c8 show ?thesis by (intro conjI)
qed

section \<open>Click and double click\<close>

text \<open>
  C3, as the claim states it, fails when the click debounce allowing is read as the
  spec defines it, now - last \<ge> 0.12: from the initial state (click timer 0.0) the two
  finger frame read at the clock value 0.12 has now - last = 0.12, and it calls neither
  the left click at the distance 20 nor the double click at the distance 80.
\<close>

theorem click_at_debounce_boundary_counterexample:
  "click_debounce_sec \<le> t_click (two_finger_frame 20 0.12) - last_click_time init_state
   \<and> fingersUp (two_finger_frame 20 0.12) ! 1 = 1 \<and> fingersUp (two_finger_frame 20 0.12) ! 2 = 1
   \<and> findDistance (two_finger_frame 20 0.12) 8 12 < 35
   \<and> Call Click \<notin> set (fst (frame_step backend_ok 1920 1080 (two_finger_frame 20 0.12) init_state))
   \<and> click_debounce_sec \<le> t_click (two_finger_frame 80 0.12) - last_click_time init_state
   \<and> 60 < findDistance (two_finger_frame 80 0.12) 8 12
   \<and> Call DoubleClick
        \<notin> set (fst (frame_step backend_ok 1920 1080 (two_finger_frame 80 0.12) init_state))"
  by (simp add: eval_defs)

text \<open>
  C3, amended. In an active frame of a hand with index and middle finger up, at a clock
  reading strictly more than the click debounce of 0.12 s after the last click (the
  test of lines 137 and 141), let d1 be the distance the detector gives for index tip
  and middle tip. If d1 < 35 the frame calls the left click and not the double click;
  if d1 > 60 it calls the double click and not the left click; and for 35 < d1 < 60 it
  calls neither.
\<close>

theorem click_thresholds:
  assumes "12 < length (lmList fr)" and "length (fingersUp fr) = 5"
    and "fingersUp fr ! 1 = 1" and "fingersUp fr ! 2 = 1"
    and "\<not> paused s"
    and "click_debounce_sec < t_click fr - last_click_time s"
  shows "(findDistance fr 8 12 < 35 \<longrightarrow>
            Call Click \<in> set (fst (frame_step ok wScr hScr fr s))
          \<and> Call DoubleClick \<notin> set (fst (frame_step ok wScr hScr fr s)))
       \<and> (60 < findDistance fr 8 12 \<longrightarrow>
            Call DoubleClick \<in> set (fst (frame_step ok wScr hScr fr s))
          \<and> Call Click \<notin> set (fst (frame_step ok wScr hScr fr s)))
       \<and> (35 < findDistance fr 8 12 \<and> findDistance fr 8 12 < 60 \<longrightarrow>
            Call Click \<notin> set (fst (frame_step ok wScr hScr fr s))
          \<and> Call DoubleClick \<notin> set (fst (frame_step ok wScr hScr fr s)))"
proof -
  let ?out = "fst (frame_step ok wScr hScr fr s)"
  let ?d1 = "findDistance fr 8 12"
  have nofist: "fingersUp fr \<noteq> [0, 0, 0, 0, 0]"
    using assms(3) by auto
  have no_click: "?d1 < 35" if "Call Click \<in> set ?out"
    using frame_step_effects [OF that]
    by (auto dest!: pause_toggle_effects cursor_move_effects click_check_Click
          right_click_check_effects dynamic_gestures_effects swipe_check_effects
          scroll_check_effects)
  have no_double: "60 < ?d1" if "Call DoubleClick \<in> set ?out"
    using frame_step_effects [OF that]
    by (auto dest!: pause_toggle_effects cursor_move_effects click_check_DoubleClick
          right_click_check_effects dynamic_gestures_effects swipe_check_effects
          scroll_check_effects)
  from assms(2) have len: "1 < length (fingersUp fr)" "2 < length (fingersUp fr)"
    by simp_all
  obtain s3 where t: "last_click_time s3 = last_click_time s"
    and sub: "set (fst (click_check ok (fingersUp fr) ?d1 (t_click fr) s3)) \<subseteq> set ?out"
    using frame_step_click_part [OF assms(1) nofist assms(5) len(1)] by blast
  from assms(6) t have deb: "click_debounce_sec < t_click fr - last_click_time s3"
    by simp
  have fires: "Call Click \<in> set ?out" if "?d1 < 35"
    using click_check_fires(1) [OF assms(3,4) len(2) deb that] sub by blast
  have fires2: "Call DoubleClick \<in> set ?out" if "60 < ?d1"
    using click_check_fires(2) [OF assms(3,4) len(2) deb that] sub by blast
  show ?thesis
    using no_click no_double fires fires2 by fastforce
qed

theorem click_thresholds_witness:
  "12 < length (lmList (two_finger_frame 20 10))
   \<and> length (fingersUp (two_finger_frame 20 10)) = 5
   \<and> fingersUp (two_finger_frame 20 10) ! 1 = 1 \<and> fingersUp (two_finger_frame 20 10) ! 2 = 1
   \<and> click_debounce_sec < t_click (two_finger_frame 20 10) - last_click_time init_state
   \<and> \<not> paused init_state
   \<and> findDistance (two_finger_frame 20 10) 8 12 < 35
   \<and> Call Click \<in> set (fst (frame_step backend_ok 1920 1080 (two_finger_frame 20 10) init_state))
   \<and> Call DoubleClick \<notin> set (fst (frame_step backend_ok 1920 1080 (two_finger_frame 20 10) init_state))
   \<and> 60 < findDistance (two_finger_frame 80 10) 8 12
   \<and> Call DoubleClick \<in> set (fst (frame_step backend_ok 1920 1080 (two_finger_frame 80 10) init_state))
   \<and> Call Click \<notin> set (fst (frame_step backend_ok 1920 1080 (two_finger_frame 80 10) init_state))
   \<and> 35 < findDistance (two_finger_frame 50 10) 8 12
   \<and> findDistance (two_finger_frame 50 10) 8 12 < 60
   \<and> Call Click \<notin> set (fst (frame_step backend_ok 1920 1080 (two_finger_frame 50 10) init_state))
   \<and> Call DoubleClick \<notin> set (fst (frame_step backend_ok 1920 1080 (two_finger_frame 50 10) init_state))"
  using click_thresholds [of "two_finger_frame 20 10" init_state backend_ok 1920 1080]
    click_thresholds [of "two_finger_frame 80 10" init_state backend_ok 1920 1080]
    click_thresholds [of "two_finger_frame 50 10" init_state backend_ok 1920 1080]
  by (simp add: two_finger_frame_def frame_at_def landmarks_def init_state_def
        fixed_distance_def threshold_defs)


section \<open>Swipe and scroll\<close>

lemma click_check_Inr:
  "ok Click \<Longrightarrow> ok DoubleClick \<Longrightarrow> 2 < length fs \<Longrightarrow>
   \<exists>s'. snd (click_check ok fs d1 now s) = Inr s'"
  by (simp add: click_check_def call_def)

lemma right_click_check_Inr:
  "ok Click_right \<Longrightarrow> \<exists>s'. snd (right_click_check ok fs d2 now s) = Inr s'"
  by (simp add: right_click_check_def call_def)








section \<open>Debounce\<close>

lemma click_check_permits:
  assumes "fs ! 1 = 1" and "fs ! 2 = 1" and "2 < length fs" and "d1 < 35 \<or> 60 < d1"
  shows "fst (click_check ok fs d1 now s) \<noteq> [] \<longleftrightarrow> click_debounce_sec < now - last_click_time s"
  using assms by (auto simp: click_check_def call_def threshold_defs)

lemma right_click_check_permits:
  assumes "fs ! 0 = 1" and "fs ! 1 = 1" and "d2 < 30"
  shows "fst (right_click_check ok fs d2 now s) \<noteq> []
     \<longleftrightarrow> click_debounce_sec < now - last_click_time s"
  using assms by (auto simp: right_click_check_def call_def)

lemma swipe_check_permits:
  assumes "fs = [1, 1, 1, 1, 1]" and "dx \<le> - 120 \<or> 120 \<le> dx" and "\<bar>dy\<bar> < 60"
  shows "fst (swipe_check ok fs dx dy now s) \<noteq> []
     \<longleftrightarrow> cooldown_swipe_sec < now - last_action_time s"
proof -
  from assms(3) have "real_of_int \<bar>dy\<bar> < 60" by linarith
  with assms(1,2) show ?thesis
    by (auto simp: swipe_check_def call_def swipe_threshold_px_def)
qed

lemma scroll_check_permits:
  assumes "fs = [1, 1, 1, 1, 1] \<or> fs ! 1 = 1 \<and> sum_list fs \<le> 2" and "dy \<le> - 80 \<or> 80 \<le> dy"
  shows "fst (scroll_check ok fs dy now s) \<noteq> [] \<longleftrightarrow> 0.2 < now - last_action_time s"
  using assms by (auto simp: scroll_check_def call_def scroll_threshold_px_def)

lemma click_check_fired:
  "snd (click_check ok fs d1 now s) = Inr s' \<Longrightarrow> fst (click_check ok fs d1 now s) \<noteq> [] \<Longrightarrow>
   last_click_time s' = now"
  by (auto simp: click_check_def call_def split: if_splits)

lemma right_click_check_fired:
  "snd (right_click_check ok fs d2 now s) = Inr s' \<Longrightarrow>
   fst (right_click_check ok fs d2 now s) \<noteq> [] \<Longrightarrow> last_click_time s' = now"
  by (auto simp: right_click_check_def call_def split: if_splits)

lemma swipe_check_fired:
  "snd (swipe_check ok fs dx dy now s) = Inr s' \<Longrightarrow>
   fst (swipe_check ok fs dx dy now s) \<noteq> [] \<Longrightarrow> last_action_time s' = now"
  by (auto simp: swipe_check_def call_def split: if_splits)

lemma scroll_check_fired:
  "snd (scroll_check ok fs dy now s) = Inr s' \<Longrightarrow>
   fst (scroll_check ok fs dy now s) \<noteq> [] \<Longrightarrow> last_action_time s' = now"
  by (auto simp: scroll_check_def call_def split: if_splits)

lemma click_check_blocked:
  "now - last_click_time s \<le> click_debounce_sec \<Longrightarrow> fst (click_check ok fs d1 now s) = []"
  by (simp add: click_check_def)

lemma right_click_check_blocked:
  "now - last_click_time s \<le> click_debounce_sec \<Longrightarrow>
   fst (right_click_check ok fs d2 now s) = []"
  by (simp add: right_click_check_def)

lemma swipe_check_blocked:
  "now - last_action_time s \<le> cooldown_swipe_sec \<Longrightarrow>
   fst (swipe_check ok fs dx dy now s) = []"
  by (simp add: swipe_check_def)

lemma scroll_check_blocked:
  "now - last_action_time s \<le> 0.2 \<Longrightarrow> fst (scroll_check ok fs dy now s) = []"
  by (simp add: scroll_check_def)

text \<open>
  C2, as the claim states it, fails: from the initial state (click timer 0.0) a frame
  with index and middle finger up at distance 20, read at the clock value 0.12, has
  now - last = 0.12, which is at least the click interval, and yet makes no call; the
  same frame read at 0.13 calls the left click.
\<close>

theorem debounce_at_interval_counterexample:
  "click_debounce_sec \<le> t_click (two_finger_frame 20 0.12) - last_click_time init_state
   \<and> fst (frame_step backend_ok 1920 1080 (two_finger_frame 20 0.12) init_state) = []
   \<and> fst (frame_step backend_ok 1920 1080 (two_finger_frame 20 0.13) init_state)
       = [Call Click, Log Log_left_click]"
  by (simp add: eval_defs)

text \<open>
  C2, amended. Each debounce check permits a qualifying gesture exactly when now minus
  the timer of its category is strictly greater than the interval: 0.12 for the left,
  double and right click (click timer), 0.7 for the swipes and 0.2 for the scrolls
  (action timer). Hence after a check of a category has fired at \<open>now\<close>, a check of the
  same category read at \<open>now'\<close> with \<open>now' - now\<close> at most its interval makes no call.
\<close>

theorem debounce_strict:
  "(fs ! 1 = 1 \<and> fs ! 2 = 1 \<and> 2 < length fs \<and> (dc < 35 \<or> 60 < dc) \<longrightarrow>
      (fst (click_check ok fs dc now s) \<noteq> [] \<longleftrightarrow> click_debounce_sec < now - last_click_time s))
   \<and> (1 < length fs \<and> fs ! 0 = 1 \<and> fs ! 1 = 1 \<and> dr < 30 \<longrightarrow>
      (fst (right_click_check ok fs dr now s) \<noteq> []
        \<longleftrightarrow> click_debounce_sec < now - last_click_time s))
   \<and> (fs = [1, 1, 1, 1, 1] \<and> (dx \<le> - 120 \<or> 120 \<le> dx) \<and> \<bar>dy\<bar> < 60 \<longrightarrow>
      (fst (swipe_check ok fs dx dy now s) \<noteq> []
        \<longleftrightarrow> cooldown_swipe_sec < now - last_action_time s))
   \<and> ((fs = [1, 1, 1, 1, 1] \<or> 1 < length fs \<and> fs ! 1 = 1 \<and> sum_list fs \<le> 2)
       \<and> (dy \<le> - 80 \<or> 80 \<le> dy) \<longrightarrow>
      (fst (scroll_check ok fs dy now s) \<noteq> [] \<longleftrightarrow> 0.2 < now - last_action_time s))
   \<and> ((snd (click_check ok fs dc now s) = Inr s' \<and> fst (click_check ok fs dc now s) \<noteq> []
        \<or> snd (right_click_check ok fs dr now s) = Inr s'
          \<and> fst (right_click_check ok fs dr now s) \<noteq> [])
       \<and> now' - now \<le> click_debounce_sec \<longrightarrow>
         fst (click_check ok' fs' dc' now' s') = []
       \<and> fst (right_click_check ok' fs' dr' now' s') = [])
   \<and> ((snd (swipe_check ok fs dx dy now s) = Inr s' \<and> fst (swipe_check ok fs dx dy now s) \<noteq> []
        \<or> snd (scroll_check ok fs dy now s) = Inr s' \<and> fst (scroll_check ok fs dy now s) \<noteq> [])
       \<longrightarrow> (now' - now \<le> cooldown_swipe_sec \<longrightarrow> fst (swipe_check ok' fs' dx' dy' now' s') = [])
         \<and> (now' - now \<le> 0.2 \<longrightarrow> fst (scroll_check ok' fs' dy' now' s') = []))"
proof (intro conjI)
  show "fs ! 1 = 1 \<and> fs ! 2 = 1 \<and> 2 < length fs \<and> (dc < 35 \<or> 60 < dc) \<longrightarrow>
      (fst (click_check ok fs dc now s) \<noteq> [] \<longleftrightarrow> click_debounce_sec < now - last_click_time s)"
    using click_check_permits [of fs dc ok now s] by blast
  show "1 < length fs \<and> fs ! 0 = 1 \<and> fs ! 1 = 1 \<and> dr < 30 \<longrightarrow>
      (fst (right_click_check ok fs dr now s) \<noteq> []
        \<longleftrightarrow> click_debounce_sec < now - last_click_time s)"
    using right_click_check_permits [of fs dr ok now s] by blast
  show "fs = [1, 1, 1, 1, 1] \<and> (dx \<le> - 120 \<or> 120 \<le> dx) \<and> \<bar>dy\<bar> < 60 \<longrightarrow>
      (fst (swipe_check ok fs dx dy now s) \<noteq> []
        \<longleftrightarrow> cooldown_swipe_sec < now - last_action_time s)"
    using swipe_check_permits [of fs dx dy ok now s] by blast
  show "(fs = [1, 1, 1, 1, 1] \<or> 1 < length fs \<and> fs ! 1 = 1 \<and> sum_list fs \<le> 2)
       \<and> (dy \<le> - 80 \<or> 80 \<le> dy) \<longrightarrow>
      (fst (scroll_check ok fs dy now s) \<noteq> [] \<longleftrightarrow> 0.2 < now - last_action_time s)"
    using scroll_check_permits [of fs dy ok now s] by blast
  show "(snd (click_check ok fs dc now s) = Inr s' \<and> fst (click_check ok fs dc now s) \<noteq> []
        \<or> snd (right_click_check ok fs dr now s) = Inr s'
          \<and> fst (right_click_check ok fs dr now s) \<noteq> [])
       \<and> now' - now \<le> click_debounce_sec \<longrightarrow>
         fst (click_check ok' fs' dc' now' s') = []
       \<and> fst (right_click_check ok' fs' dr' now' s') = []"
  proof
    assume h: "(snd (click_check ok fs dc now s) = Inr s' \<and> fst (click_check ok fs dc now s) \<noteq> []
        \<or> snd (right_click_check ok fs dr now s) = Inr s'
          \<and> fst (right_click_check ok fs dr now s) \<noteq> [])
       \<and> now' - now \<le> click_debounce_sec"
    then have "last_click_time s' = now"
      using click_check_fired [of ok fs dc now s s']
        right_click_check_fired [of ok fs dr now s s'] by blast
    with h show "fst (click_check ok' fs' dc' now' s') = []
       \<and> fst (right_click_check ok' fs' dr' now' s') = []"
      by (simp add: click_check_blocked right_click_check_blocked)
  qed
  show "(snd (swipe_check ok fs dx dy now s) = Inr s' \<and> fst (swipe_check ok fs dx dy now s) \<noteq> []
        \<or> snd (scroll_check ok fs dy now s) = Inr s' \<and> fst (scroll_check ok fs dy now s) \<noteq> [])
       \<longrightarrow> (now' - now \<le> cooldown_swipe_sec \<longrightarrow> fst (swipe_check ok' fs' dx' dy' now' s') = [])
         \<and> (now' - now \<le> 0.2 \<longrightarrow> fst (scroll_check ok' fs' dy' now' s') = [])"
  proof
    assume "snd (swipe_check ok fs dx dy now s) = Inr s' \<and> fst (swipe_check ok fs dx dy now s) \<noteq> []
        \<or> snd (scroll_check ok fs dy now s) = Inr s' \<and> fst (scroll_check ok fs dy now s) \<noteq> []"
    then have "last_action_time s' = now"
      using swipe_check_fired [of ok fs dx dy now s s']
        scroll_check_fired [of ok fs dy now s s'] by blast
    then show "(now' - now \<le> cooldown_swipe_sec \<longrightarrow>
          fst (swipe_check ok' fs' dx' dy' now' s') = [])
       \<and> (now' - now \<le> 0.2 \<longrightarrow> fst (scroll_check ok' fs' dy' now' s') = [])"
      by (simp add: swipe_check_blocked scroll_check_blocked)
  qed
qed


theorem debounce_strict_witness:
  "fst (click_check backend_ok [1, 1, 1, 1, 1] 20 10 init_state) \<noteq> []
   \<and> click_debounce_sec < 10 - last_click_time init_state
   \<and> fst (right_click_check backend_ok [1, 1, 1, 1, 1] 20 10 init_state) \<noteq> []
   \<and> fst (swipe_check backend_ok [1, 1, 1, 1, 1] (- 150) 5 10 init_state) \<noteq> []
   \<and> cooldown_swipe_sec < 10 - last_action_time init_state
   \<and> fst (scroll_check backend_ok [1, 1, 1, 1, 1] 90 10 init_state) \<noteq> []
   \<and> snd (click_check backend_ok [1, 1, 1, 1, 1] 20 10 init_state)
       = Inr (init_state\<lparr>last_click_time := 10\<rparr>)
   \<and> 10.1 - 10 \<le> click_debounce_sec
   \<and> fst (click_check backend_ok [1, 1, 1, 1, 1] 20 10.1 (init_state\<lparr>last_click_time := 10\<rparr>)) = []
   \<and> fst (right_click_check backend_ok [1, 1, 1, 1, 1] 20 10.1
        (init_state\<lparr>last_click_time := 10\<rparr>)) = []
   \<and> snd (swipe_check backend_ok [1, 1, 1, 1, 1] (- 150) 5 10 init_state)
       = Inr (init_state\<lparr>last_action_time := 10\<rparr>)
   \<and> 10.1 - 10 \<le> cooldown_swipe_sec
   \<and> fst (swipe_check backend_ok [1, 1, 1, 1, 1] (- 150) 5 10.1
        (init_state\<lparr>last_action_time := 10\<rparr>)) = []
   \<and> fst (scroll_check backend_ok [1, 1, 1, 1, 1] 90 10.1
        (init_state\<lparr>last_action_time := 10\<rparr>)) = []"
proof -
  have c: "snd (click_check backend_ok [1, 1, 1, 1, 1] 20 10 init_state)
       = Inr (init_state\<lparr>last_click_time := 10\<rparr>)"
    by (simp add: click_check_def call_def backend_ok_def init_state_def threshold_defs)
  have w: "snd (swipe_check backend_ok [1, 1, 1, 1, 1] (- 150) 5 10 init_state)
       = Inr (init_state\<lparr>last_action_time := 10\<rparr>)"
    by (simp add: swipe_check_def call_def backend_ok_def init_state_def threshold_defs)
  have r: "snd (scroll_check backend_ok [1, 1, 1, 1, 1] 90 10 init_state)
       = Inr (init_state\<lparr>last_action_time := 10\<rparr>)"
    "fst (scroll_check backend_ok [1, 1, 1, 1, 1] 90 10 init_state) \<noteq> []"
    by (simp_all add: scroll_check_def call_def backend_ok_def init_state_def threshold_defs)
  have t: "click_debounce_sec < 10 - last_click_time init_state"
    "cooldown_swipe_sec < 10 - last_action_time init_state"
    "(0.2 :: real) < 10 - last_action_time init_state"
    "(10.1 :: real) - 10 \<le> click_debounce_sec" "(10.1 :: real) - 10 \<le> cooldown_swipe_sec"
    "(10.1 :: real) - 10 \<le> 0.2"
    by (simp_all add: init_state_def threshold_defs)
  show ?thesis
    using c w r t
      debounce_strict [where fs = "[1, 1, 1, 1, 1]" and dc = 20 and dr = 20 and ok = backend_ok
        and now = 10 and s = init_state and dx = "- 150" and dy = 5
        and s' = "init_state\<lparr>last_click_time := 10\<rparr>" and now' = "10.1"
        and ok' = backend_ok and fs' = "[1, 1, 1, 1, 1]" and dc' = 20 and dr' = 20]
      debounce_strict [where fs = "[1, 1, 1, 1, 1]" and ok = backend_ok
        and now = 10 and s = init_state and dx = "- 150" and dy = 90
        and s' = "init_state\<lparr>last_action_time := 10\<rparr>" and now' = "10.1"
        and ok' = backend_ok and fs' = "[1, 1, 1, 1, 1]" and dx' = "- 150" and dy' = 90]
      debounce_strict [where fs = "[1, 1, 1, 1, 1]" and ok = backend_ok
        and now = 10 and s = init_state and dx = "- 150" and dy = 5
        and s' = "init_state\<lparr>last_action_time := 10\<rparr>" and now' = "10.1"
        and ok' = backend_ok and fs' = "[1, 1, 1, 1, 1]" and dx' = "- 150" and dy' = 5]
    by simp
qed

section \<open>The click scenario\<close>

lemma click_frame_distance:
  "landmark_distance (landmarks th (200, 200) (210, 205)) 8 12 < 35"
  "\<not> 60 < landmark_distance (landmarks th (200, 200) (210, 205)) 8 12"
proof -
  have d: "landmark_distance (landmarks th (200, 200) (210, 205)) 8 12 = sqrt 125"
    by (simp add: landmark_distance_def landmarks_def distance_def)
  have "sqrt 125 < 35"
    by (rule real_less_lsqrt) simp_all
  then show "landmark_distance (landmarks th (200, 200) (210, 205)) 8 12 < 35"
    and "\<not> 60 < landmark_distance (landmarks th (200, 200) (210, 205)) 8 12"
    by (simp_all add: d)
qed

lemmas click_frame_eval = click_frame_distance [unfolded landmarks_def]

text \<open>
  C9. The times of the scenario are counted from its first frame, whose clock reading t
  is a reading of \<open>time.time()\<close> and so lies more than 0.12 above the initial click
  timer 0.0. From the initial state, the frame with finger list [0, 1, 1, 0, 0], index
  tip (200, 200) and middle tip (210, 205), read at such a t, calls the left click
  exactly once and makes no other call; when that call returns, the identical frame read
  0.05 s later, at t + 0.05, makes no call, the click debounce of 0.12 s not having
  elapsed. The two frames together call the left click exactly once.
\<close>

theorem first_click_then_debounced:
  assumes "0.12 < t"
  shows "calls Click (fst (frame_step ok wScr hScr (click_frame t) init_state)) = 1
     \<and> (\<forall>c. Call c \<in> set (fst (frame_step ok wScr hScr (click_frame t) init_state))
           \<longrightarrow> c = Click)
     \<and> (ok Click \<longrightarrow>
          snd (frame_step ok wScr hScr (click_frame t) init_state)
            = Inr (init_state\<lparr>last_click_time := t, trail := [(200, 200, t)]\<rparr>)
        \<and> fst (frame_step ok wScr hScr (click_frame (t + 0.05))
                 (init_state\<lparr>last_click_time := t, trail := [(200, 200, t)]\<rparr>)) = [])
     \<and> calls Click
          (fst (main_loop ok wScr hScr [click_frame t, click_frame (t + 0.05)] init_state)) = 1"
proof -
  have one: "frame_step ok wScr hScr (click_frame t) init_state
      = (if ok Click
         then ([Call Click, Log Log_left_click],
               Inr (init_state\<lparr>last_click_time := t, trail := [(200, 200, t)]\<rparr>))
         else ([Call Click], Inl (BackendError Click)))"
    using assms by (simp add: eval_defs click_frame_eval)
  have two: "frame_step ok wScr hScr (click_frame (t + 0.05))
                 (init_state\<lparr>last_click_time := t, trail := [(200, 200, t)]\<rparr>)
      = ([], Inr (init_state\<lparr>last_click_time := t,
                    trail := [(200, 200, t), (200, 200, t + 0.05)]\<rparr>))"
    by (simp add: eval_defs click_frame_eval)
  show ?thesis
    using two by (simp add: one calls_def)
qed

theorem first_click_then_debounced_witness:
  "(0.12 :: real) < 10 \<and> backend_ok Click
   \<and> calls Click (fst (frame_step backend_ok 1920 1080 (click_frame 10) init_state)) = 1
   \<and> fst (frame_step backend_ok 1920 1080 (click_frame (10 + 0.05))
            (init_state\<lparr>last_click_time := 10, trail := [(200, 200, 10)]\<rparr>)) = []
   \<and> calls Click (fst (main_loop backend_ok 1920 1080
        [click_frame 10, click_frame (10 + 0.05)] init_state)) = 1"
  using first_click_then_debounced [of 10 backend_ok 1920 1080]
  by (simp add: backend_ok_def)

section \<open>Exceptions of the backend\<close>

text \<open>
  C5. Only the mouse move is called inside a \<open>try\<close>: a move the backend rejects is
  logged and the frame goes on. The left click of line 138 is not: when it raises on the
  first frame, the exception leaves the frame loop, and the second frame is never
  processed.
\<close>

theorem click_exception_leaves_loop:
  "main_loop backend_no_click 1920 1080 [click_frame 10, click_frame 11] init_state
     = ([Call Click], Inl (BackendError Click))
   \<and> fst (frame_step backend_no_move 1920 1080 (point_frame (50, 50) 10) init_state)
     = [Call (Mouse_move 1919 0), Log Mouse_move_ignored]
   \<and> (\<exists>s'. snd (frame_step backend_no_move 1920 1080 (point_frame (50, 50) 10) init_state)
         = Inr s')"
  by (simp add: eval_defs click_frame_eval)


section \<open>The pause controller\<close>

lemma dynamic_gestures_Inr:
  assumes "ok (Hotkey [''ctrl'', ''a''])" and "ok (Hotkey [''ctrl'', ''c''])"
    and "ok (Scroll 60)" and "ok (Scroll (- 60))"
  shows "\<exists>s'. snd (dynamic_gestures ok fs x1 y1 t now s) = Inr s'"
proof -
  have sw: "\<exists>s'. snd (swipe_check ok fs dx dy now s1) = Inr s'" for dx dy s1
    using assms(1,2) by (simp add: swipe_check_def call_def)
  have sc: "\<exists>s'. snd (scroll_check ok fs dy now s2) = Inr s'" for dy s2
    using assms(3,4) by (simp add: scroll_check_def call_def)
  show ?thesis
    using sw sc by (simp add: dynamic_gestures_def Let_def snd_bind_res_Inr_iff) metis
qed

text \<open>A frame of a whole hand is processed to its end when no backend call raises.\<close>

lemma frame_step_total:
  assumes "12 < length (lmList fr)" and "length (fingersUp fr) = 5" and "\<And>c. ok c"
  shows "\<exists>s'. snd (frame_step ok wScr hScr fr s) = Inr s'"
proof -
  let ?fs = "fingersUp fr"
  let ?s1 = "snd (pause_toggle (t_rest fr) ?fs s)"
  from assms(1) have ne: "lmList fr \<noteq> []" by auto
  show ?thesis
  proof (cases "paused ?s1")
    case True
    with ne assms(1) show ?thesis
      by (auto simp: frame_step_def Let_def split: prod.splits)
  next
    case False
    from assms(2) have l1: "1 < length ?fs" and l2: "2 < length ?fs" by simp_all
    from cursor_move_Inr [OF l1] obtain s3 where
      s3: "snd (cursor_move ok wScr hScr (fst (lmList fr ! 8)) (snd (lmList fr ! 8)) ?fs ?s1)
            = Inr s3" by blast
    from click_check_Inr [of ok, OF assms(3) assms(3) l2] obtain s4 where
      s4: "snd (click_check ok ?fs (findDistance fr 8 12) (t_click fr) s3) = Inr s4" by blast
    from right_click_check_Inr [of ok, OF assms(3)] obtain s5 where
      s5: "snd (right_click_check ok ?fs (findDistance fr 4 8) (t_right fr) s4) = Inr s5"
      by blast
    from dynamic_gestures_Inr [of ok, OF assms(3) assms(3) assms(3) assms(3)] obtain s6 where
      s6: "snd (dynamic_gestures ok ?fs (fst (lmList fr ! 8)) (snd (lmList fr ! 8))
                 (t_trail fr) (t_dyn fr) s5) = Inr s6" by blast
    from False ne assms(1) s3 s4 s5 s6 show ?thesis
      by (auto simp: frame_step_def Let_def snd_bind_res_Inr_iff split: prod.splits)
  qed
qed

lemma frame_step_pause_fields:
  assumes "snd (frame_step ok wScr hScr fr s) = Inr s'" and "lmList fr \<noteq> []"
  shows "rest_since s' = rest_since (snd (pause_toggle (t_rest fr) (fingersUp fr) s))
       \<and> paused s' = paused (snd (pause_toggle (t_rest fr) (fingersUp fr) s))"
  using frame_step_Inr [OF assms(1)] assms(2)
  by (auto dest!: cursor_move_keeps click_check_keeps right_click_check_keeps
        dynamic_gestures_keeps)

text \<open>
  C8, as the claim states it, fails on a frame without a hand: after a fist read at the
  clock value 10 the timer is armed, the frame without a hand at 10.1 leaves it armed,
  and the fist at 10.4 toggles the pause although the hold was interrupted.
\<close>

theorem rest_since_no_hand_counterexample:
  "snd (main_loop backend_ok 1920 1080 [fist_frame 10, no_hand 10.1] init_state)
     = Inr (init_state\<lparr>rest_since := Some 10, trail := [(200, 200, 10)]\<rparr>)
   \<and> rest_since (init_state\<lparr>rest_since := Some 10, trail := [(200, 200, 10)]\<rparr>) \<noteq> None
   \<and> fst (main_loop backend_ok 1920 1080 [fist_frame 10, no_hand 10.1, fist_frame 10.4]
            init_state) = [Log Log_paused]"
  by (simp add: eval_defs)

text \<open>
  C8, amended. On every frame with a detected hand whose finger list is not the fist,
  line 117 clears restSince, and it is unset in the state the frame ends with; the frame
  does end when the hand has all its landmarks and five finger entries and no backend
  call raises. A frame with no hand detected leaves the whole state, restSince
  included, as it was.
\<close>

theorem rest_since_cleared_with_hand:
  "(lmList fr \<noteq> [] \<and> fingersUp fr \<noteq> [0, 0, 0, 0, 0] \<longrightarrow>
      rest_since (snd (pause_toggle (t_rest fr) (fingersUp fr) s)) = None
    \<and> (\<forall>s'. snd (frame_step ok wScr hScr fr s) = Inr s' \<longrightarrow> rest_since s' = None)
    \<and> (12 < length (lmList fr) \<and> length (fingersUp fr) = 5 \<and> (\<forall>c. ok c) \<longrightarrow>
         (\<exists>s'. snd (frame_step ok wScr hScr fr s) = Inr s')))
   \<and> (lmList fr = [] \<longrightarrow> frame_step ok wScr hScr fr s = ([], Inr s))"
proof (intro conjI impI)
  assume h: "lmList fr \<noteq> [] \<and> fingersUp fr \<noteq> [0, 0, 0, 0, 0]"
  then show c: "rest_since (snd (pause_toggle (t_rest fr) (fingersUp fr) s)) = None"
    by (simp add: pause_toggle_not_fist)
  show "\<forall>s'. snd (frame_step ok wScr hScr fr s) = Inr s' \<longrightarrow> rest_since s' = None"
    using frame_step_pause_fields [of ok wScr hScr fr s] h c by auto
next
  assume "12 < length (lmList fr) \<and> length (fingersUp fr) = 5 \<and> (\<forall>c. ok c)"
  then show "\<exists>s'. snd (frame_step ok wScr hScr fr s) = Inr s'"
    by (intro frame_step_total) simp_all
next
  assume "lmList fr = []"
  then show "frame_step ok wScr hScr fr s = ([], Inr s)"
    by (simp add: frame_step_def)
qed

theorem rest_since_cleared_with_hand_witness:
  "lmList (two_finger_frame 50 10.2) \<noteq> []
   \<and> fingersUp (two_finger_frame 50 10.2) \<noteq> [0, 0, 0, 0, 0]
   \<and> 12 < length (lmList (two_finger_frame 50 10.2))
   \<and> length (fingersUp (two_finger_frame 50 10.2)) = 5
   \<and> (\<forall>c. backend_ok c)
   \<and> (\<exists>s'. snd (frame_step backend_ok 1920 1080 (two_finger_frame 50 10.2)
               (init_state\<lparr>rest_since := Some 10\<rparr>)) = Inr s' \<and> rest_since s' = None)
   \<and> lmList (no_hand 10.1) = []
   \<and> frame_step backend_ok 1920 1080 (no_hand 10.1) (init_state\<lparr>rest_since := Some 10\<rparr>)
       = ([], Inr (init_state\<lparr>rest_since := Some 10\<rparr>))"
  using rest_since_cleared_with_hand
      [of "two_finger_frame 50 10.2" "init_state\<lparr>rest_since := Some 10\<rparr>" backend_ok 1920 1080]
    rest_since_cleared_with_hand
      [of "no_hand 10.1" "init_state\<lparr>rest_since := Some 10\<rparr>" backend_ok 1920 1080]
  by (auto simp: two_finger_frame_def no_hand_def frame_at_def landmarks_def backend_ok_def)


section \<open>Frames of a fist\<close>

text \<open>
  A fist raises no finger, so lines 124 to 182 make no call on it; when the session is
  active after the pause check, line 156 still appends the sample to the trail.
\<close>

lemma frame_step_fist:
  assumes "is_fist fr"
  shows "frame_step ok wScr hScr fr s =
     (fst (pause_toggle (t_rest fr) [0, 0, 0, 0, 0] s),
      Inr (if paused (snd (pause_toggle (t_rest fr) [0, 0, 0, 0, 0] s))
           then snd (pause_toggle (t_rest fr) [0, 0, 0, 0, 0] s)
           else (snd (pause_toggle (t_rest fr) [0, 0, 0, 0, 0] s))
                  \<lparr>trail := deque_append trail_maxlen
                     (fst (lmList fr ! 8), snd (lmList fr ! 8), t_trail fr)
                     (trail (snd (pause_toggle (t_rest fr) [0, 0, 0, 0, 0] s)))\<rparr>))"
proof -
  from assms have l: "12 < length (lmList fr)" "lmList fr \<noteq> []"
    and f: "fingersUp fr = [0, 0, 0, 0, 0]"
    by (auto simp: is_fist_def)
  show ?thesis
    using l
    by (simp add: frame_step_def f cursor_move_def click_check_def right_click_check_def
          dynamic_gestures_def swipe_check_def scroll_check_def bind_res_def Let_def
          split: prod.splits)
qed

text \<open>
  C10, as the claim states it, fails on the frame that resumes: in the paused state
  reached by fists read at 10, 10.5 and 11, the fist read at 11.5 flips the flag first,
  and the same frame then appends its sample to the trail.
\<close>

theorem paused_frame_trail_counterexample:
  "snd (main_loop backend_ok 1920 1080 [fist_frame 10, fist_frame 10.5, fist_frame 11]
          init_state) = Inr paused_state
   \<and> paused paused_state
   \<and> lmList (fist_frame 11.5) \<noteq> []
   \<and> snd (frame_step backend_ok 1920 1080 (fist_frame 11.5) paused_state)
       = Inr (init_state\<lparr>trail := [(200, 200, 10), (200, 200, 11.5)]\<rparr>)
   \<and> trail (init_state\<lparr>trail := [(200, 200, 10), (200, 200, 11.5)]\<rparr>) \<noteq> trail paused_state"
  by (simp add: eval_defs)

lemma pause_toggle_only:
  "snd (pause_toggle now fs s)
   = s\<lparr>rest_since := rest_since (snd (pause_toggle now fs s)),
        paused := paused (snd (pause_toggle now fs s))\<rparr>"
  by (simp add: pause_toggle_def split: option.splits)

text \<open>
  C10, amended. While the state is PAUSED, a frame with a detected hand (all of its
  landmarks) is processed to its end without any backend call, and leaves both debounce
  timers and the pointer smoothing state (plocX, plocY, and clocX, clocY as well)
  unchanged: the state after the frame is the state before it but for restSince, the
  paused flag and the trail. The trail is unchanged too when the state is still PAUSED
  after the frame; on the frame whose fist check resumes the session, the frame's
  sample is appended to the trail.
\<close>

theorem paused_frame_effect:
  "paused s \<and> 12 < length (lmList fr) \<longrightarrow>
     (\<exists>s'. snd (frame_step ok wScr hScr fr s) = Inr s'
        \<and> last_click_time s' = last_click_time s
        \<and> last_action_time s' = last_action_time s
        \<and> plocX s' = plocX s \<and> plocY s' = plocY s
        \<and> clocX s' = clocX s \<and> clocY s' = clocY s
        \<and> s' = s\<lparr>rest_since := rest_since s', paused := paused s', trail := trail s'\<rparr>
        \<and> (if paused s' then trail s' = trail s
            else trail s' = deque_append trail_maxlen
                   (fst (lmList fr ! 8), snd (lmList fr ! 8), t_trail fr) (trail s)))
   \<and> (\<forall>c. Call c \<notin> set (fst (frame_step ok wScr hScr fr s)))"
proof
  assume h: "paused s \<and> 12 < length (lmList fr)"
  let ?pt = "pause_toggle (t_rest fr) (fingersUp fr) s"
  let ?s1 = "snd ?pt"
  let ?s' = "if paused ?s1 then ?s1
             else ?s1\<lparr>trail := deque_append trail_maxlen
                    (fst (lmList fr ! 8), snd (lmList fr ! 8), t_trail fr) (trail ?s1)\<rparr>"
  have step: "frame_step ok wScr hScr fr s = (fst ?pt, Inr ?s')"
  proof (cases "fingersUp fr = [0, 0, 0, 0, 0]")
    case True
    with h have "is_fist fr" by (simp add: is_fist_def)
    from frame_step_fist [OF this, of ok wScr hScr s] True show ?thesis by simp
  next
    case False
    from h have "lmList fr \<noteq> []" by auto
    with h False show ?thesis
      by (simp add: frame_step_def pause_toggle_not_fist Let_def)
  qed
  note keeps = pause_toggle_keeps [of "t_rest fr" "fingersUp fr" s]
  have eq: "?s' = s\<lparr>rest_since := rest_since ?s', paused := paused ?s', trail := trail ?s'\<rparr>"
    using keeps by (subst pause_toggle_only) simp
  have tr: "if paused ?s' then trail ?s' = trail s
            else trail ?s' = deque_append trail_maxlen
                   (fst (lmList fr ! 8), snd (lmList fr ! 8), t_trail fr) (trail s)"
    using keeps by simp
  have fields: "last_click_time ?s' = last_click_time s"
    "last_action_time ?s' = last_action_time s"
    "plocX ?s' = plocX s" "plocY ?s' = plocY s" "clocX ?s' = clocX s" "clocY ?s' = clocY s"
    using keeps by simp_all
  have nocall: "Call c \<notin> set (fst (frame_step ok wScr hScr fr s))" for c
    unfolding step using pause_toggle_effects [of "Call c" "t_rest fr" "fingersUp fr" s]
    by auto
  have "snd (frame_step ok wScr hScr fr s) = Inr ?s'"
    by (simp add: step)
  with fields eq tr nocall
  show "(\<exists>s'. snd (frame_step ok wScr hScr fr s) = Inr s'
        \<and> last_click_time s' = last_click_time s
        \<and> last_action_time s' = last_action_time s
        \<and> plocX s' = plocX s \<and> plocY s' = plocY s
        \<and> clocX s' = clocX s \<and> clocY s' = clocY s
        \<and> s' = s\<lparr>rest_since := rest_since s', paused := paused s', trail := trail s'\<rparr>
        \<and> (if paused s' then trail s' = trail s
            else trail s' = deque_append trail_maxlen
                   (fst (lmList fr ! 8), snd (lmList fr ! 8), t_trail fr) (trail s)))
   \<and> (\<forall>c. Call c \<notin> set (fst (frame_step ok wScr hScr fr s)))"
    by blast
qed

theorem paused_frame_effect_witness:
  "paused paused_state \<and> 12 < length (lmList (fist_frame 11.5))
   \<and> snd (frame_step backend_ok 1920 1080 (fist_frame 11.5) paused_state)
       = Inr (init_state\<lparr>trail := [(200, 200, 10), (200, 200, 11.5)]\<rparr>)
   \<and> last_click_time (init_state\<lparr>trail := [(200, 200, 10), (200, 200, 11.5)]\<rparr>)
       = last_click_time paused_state
   \<and> \<not> paused (init_state\<lparr>trail := [(200, 200, 10), (200, 200, 11.5)]\<rparr>)
   \<and> snd (frame_step backend_ok 1920 1080 (fist_frame 11.2) paused_state) = Inr paused_state
   \<and> Call Click \<notin> set (fst (frame_step backend_ok 1920 1080 (fist_frame 11.5) paused_state))"
proof -
  have a: "snd (frame_step backend_ok 1920 1080 (fist_frame 11.5) paused_state)
       = Inr (init_state\<lparr>trail := [(200, 200, 10), (200, 200, 11.5)]\<rparr>)"
    and b: "snd (frame_step backend_ok 1920 1080 (fist_frame 11.2) paused_state)
       = Inr paused_state"
    by (simp_all add: eval_defs)
  have c: "paused paused_state" "12 < length (lmList (fist_frame 11.5))"
    "last_click_time (init_state\<lparr>trail := [(200, 200, 10), (200, 200, 11.5)]\<rparr>)
       = last_click_time paused_state"
    "\<not> paused (init_state\<lparr>trail := [(200, 200, 10), (200, 200, 11.5)]\<rparr>)"
    by (simp_all add: paused_state_def init_state_def fist_frame_def frame_at_def landmarks_def)
  from paused_frame_effect [of paused_state "fist_frame 11.5" backend_ok 1920 1080] c(1,2)
  have "Call Click \<notin> set (fst (frame_step backend_ok 1920 1080 (fist_frame 11.5) paused_state))"
    by blast
  with a b c show ?thesis by simp
qed


section \<open>Holding the fist\<close>

lemma toggles_append [simp]: "toggles (a @ b) = toggles a + toggles b"
  by (simp add: toggles_def)

lemma toggles_Nil [simp]: "toggles [] = 0"
  by (simp add: toggles_def)

lemma pause_toggle_fist_unset:
  "rest_since s = None \<Longrightarrow>
   pause_toggle now [0, 0, 0, 0, 0] s = ([], s\<lparr>rest_since := Some now\<rparr>)"
  by (simp add: pause_toggle_def)

lemma pause_toggle_fist_held:
  "rest_since s = Some r \<Longrightarrow> rest_toggle_hold_sec \<le> now - r \<Longrightarrow>
   toggles (fst (pause_toggle now [0, 0, 0, 0, 0] s)) = 1
   \<and> rest_since (snd (pause_toggle now [0, 0, 0, 0, 0] s)) = None"
  by (simp add: pause_toggle_def toggles_def is_toggle_def)

lemma pause_toggle_fist_short:
  "rest_since s = Some r \<Longrightarrow> \<not> rest_toggle_hold_sec \<le> now - r \<Longrightarrow>
   pause_toggle now [0, 0, 0, 0, 0] s = ([], s)"
  by (simp add: pause_toggle_def)

text \<open>One fist frame: its trace is that of the pause check, and it always ends.\<close>

lemma fist_frame_step:
  assumes "is_fist fr"
  obtains s1 where
    "frame_step ok wScr hScr fr s = (fst (pause_toggle (t_rest fr) [0, 0, 0, 0, 0] s), Inr s1)"
    and "rest_since s1 = rest_since (snd (pause_toggle (t_rest fr) [0, 0, 0, 0, 0] s))"
  using frame_step_fist [OF assms, of ok wScr hScr s] by (cases "paused (snd (pause_toggle (t_rest fr) [0, 0, 0, 0, 0] s))") auto

text \<open>
  Between two toggles of one hold lie at least \<open>rest_toggle_hold_sec\<close> seconds: the
  number of toggles of a run of fist frames is bounded by its duration.
\<close>

lemma fist_run_upper:
  assumes "\<forall>fr \<in> set frs. is_fist fr" and "sorted (map t_rest frs)"
  shows "(\<exists>s'. snd (main_loop ok wScr hScr frs s) = Inr s')
     \<and> (frs \<noteq> [] \<longrightarrow>
          (rest_since s = None \<longrightarrow>
             rest_toggle_hold_sec * real (toggles (fst (main_loop ok wScr hScr frs s)))
               \<le> t_rest (last frs) - t_rest (hd frs))
        \<and> (\<forall>r. rest_since s = Some r \<and> r \<le> t_rest (hd frs) \<longrightarrow>
             rest_toggle_hold_sec * real (toggles (fst (main_loop ok wScr hScr frs s)))
               \<le> t_rest (last frs) - r))"
  using assms
proof (induction frs arbitrary: s)
  case Nil
  then show ?case by simp
next
  case (Cons fr frs)
  let ?pt = "pause_toggle (t_rest fr) [0, 0, 0, 0, 0] s"
  from Cons.prems have fist: "is_fist fr" and rest: "\<forall>fr \<in> set frs. is_fist fr"
    and srt: "sorted (map t_rest frs)" and le: "\<forall>x \<in> set frs. t_rest fr \<le> t_rest x"
    by auto
  obtain s1 where step: "frame_step ok wScr hScr fr s = (fst ?pt, Inr s1)"
    and rs1: "rest_since s1 = rest_since (snd ?pt)"
    using fist_frame_step [OF fist] by blast
  let ?T = "toggles (fst (main_loop ok wScr hScr frs s1))"
  have out: "fst (main_loop ok wScr hScr (fr # frs) s) = fst ?pt @ fst (main_loop ok wScr hScr frs s1)"
    and res: "snd (main_loop ok wScr hScr (fr # frs) s) = snd (main_loop ok wScr hScr frs s1)"
    by (simp_all add: step)
  have T: "toggles (fst (main_loop ok wScr hScr (fr # frs) s)) = toggles (fst ?pt) + ?T"
    unfolding out by simp
  note IH = Cons.IH [OF rest srt, of s1]
  have pos: "0 < rest_toggle_hold_sec" by (simp add: rest_toggle_hold_sec_def)
  have ends: "\<exists>s'. snd (main_loop ok wScr hScr (fr # frs) s) = Inr s'"
    unfolding res using IH by simp
  have unset: "rest_toggle_hold_sec * real (toggles (fst (main_loop ok wScr hScr (fr # frs) s)))
         \<le> t_rest (last (fr # frs)) - t_rest (hd (fr # frs))"
    if n: "rest_since s = None"
  proof (cases "frs = []")
    case True
    then show ?thesis unfolding T by (simp add: pause_toggle_fist_unset [OF n])
  next
    case False
    then have "hd frs \<in> set frs" by simp
    with le have h: "t_rest fr \<le> t_rest (hd frs)" by blast
    have "rest_since s1 = Some (t_rest fr)"
      by (simp add: rs1 pause_toggle_fist_unset [OF n])
    with IH False h have "rest_toggle_hold_sec * real ?T \<le> t_rest (last frs) - t_rest fr"
      by blast
    with False show ?thesis unfolding T by (simp add: pause_toggle_fist_unset [OF n])
  qed
  have armed: "rest_toggle_hold_sec * real (toggles (fst (main_loop ok wScr hScr (fr # frs) s)))
         \<le> t_rest (last (fr # frs)) - r"
    if a: "rest_since s = Some r" and r: "r \<le> t_rest fr" for r
  proof (cases "rest_toggle_hold_sec \<le> t_rest fr - r")
    case True
    from pause_toggle_fist_held [OF a True]
    have one: "toggles (fst ?pt) = 1" and none: "rest_since s1 = None"
      by (simp_all add: rs1)
    show ?thesis
    proof (cases "frs = []")
      case True
      with \<open>rest_toggle_hold_sec \<le> t_rest fr - r\<close> show ?thesis
        unfolding T by (simp add: one)
    next
      case False
      then have "hd frs \<in> set frs" by simp
      with le have h: "t_rest fr \<le> t_rest (hd frs)" by blast
      from IH False none
      have "rest_toggle_hold_sec * real ?T \<le> t_rest (last frs) - t_rest (hd frs)" by blast
      with True h False show ?thesis
        unfolding T by (simp add: one algebra_simps)
    qed
  next
    case False
    from pause_toggle_fist_short [OF a False]
    have zero: "fst ?pt = []" and same: "rest_since s1 = Some r"
      by (simp_all add: rs1 a)
    show ?thesis
    proof (cases "frs = []")
      case True
      with r show ?thesis unfolding T by (simp add: zero)
    next
      case False
      then have "hd frs \<in> set frs" by simp
      with le r have h: "r \<le> t_rest (hd frs)" by fastforce
      from IH \<open>frs \<noteq> []\<close> same h
      have "rest_toggle_hold_sec * real ?T \<le> t_rest (last frs) - r" by blast
      with False show ?thesis unfolding T by (simp add: zero)
    qed
  qed
  show ?case
  proof (intro conjI impI allI)
    show "\<exists>s'. snd (main_loop ok wScr hScr (fr # frs) s) = Inr s'" by (rule ends)
  next
    assume "rest_since s = None"
    then show "rest_toggle_hold_sec * real (toggles (fst (main_loop ok wScr hScr (fr # frs) s)))
         \<le> t_rest (last (fr # frs)) - t_rest (hd (fr # frs))" by (rule unset)
  next
    fix r assume "rest_since s = Some r \<and> r \<le> t_rest (hd (fr # frs))"
    then show "rest_toggle_hold_sec * real (toggles (fst (main_loop ok wScr hScr (fr # frs) s)))
         \<le> t_rest (last (fr # frs)) - r" using armed [of r] by simp
  qed
qed

text \<open>An armed timer fires on the first frame that is late enough.\<close>

lemma fist_run_lower:
  assumes "\<forall>fr \<in> set frs. is_fist fr" and "rest_since s = Some r"
    and "\<exists>fr \<in> set frs. rest_toggle_hold_sec \<le> t_rest fr - r"
  shows "1 \<le> toggles (fst (main_loop ok wScr hScr frs s))"
  using assms
proof (induction frs arbitrary: s)
  case Nil
  then show ?case by simp
next
  case (Cons fr frs)
  let ?pt = "pause_toggle (t_rest fr) [0, 0, 0, 0, 0] s"
  from Cons.prems have fist: "is_fist fr" and rest: "\<forall>fr \<in> set frs. is_fist fr"
    by auto
  obtain s1 where step: "frame_step ok wScr hScr fr s = (fst ?pt, Inr s1)"
    and rs1: "rest_since s1 = rest_since (snd ?pt)"
    using fist_frame_step [OF fist] by blast
  have out: "fst (main_loop ok wScr hScr (fr # frs) s) = fst ?pt @ fst (main_loop ok wScr hScr frs s1)"
    by (simp add: step)
  show ?case
  proof (cases "rest_toggle_hold_sec \<le> t_rest fr - r")
    case True
    from pause_toggle_fist_held [OF Cons.prems(2) True] show ?thesis
      unfolding out by simp
  next
    case False
    from pause_toggle_fist_short [OF Cons.prems(2) False]
    have same: "rest_since s1 = Some r" by (simp add: rs1 Cons.prems(2))
    from False Cons.prems(3)
    have "\<exists>fr \<in> set frs. rest_toggle_hold_sec \<le> t_rest fr - r" by auto
    from Cons.IH [OF rest same this] show ?thesis unfolding out by simp
  qed
qed

lemma pause_toggle_parity:
  "paused (snd (pause_toggle now fs s))
   = (if even (toggles (fst (pause_toggle now fs s))) then paused s else \<not> paused s)"
  by (simp add: pause_toggle_def toggles_def is_toggle_def split: option.splits)

lemma fist_frame_state:
  assumes "is_fist fr"
  obtains s1 where
    "frame_step ok wScr hScr fr s = (fst (pause_toggle (t_rest fr) [0, 0, 0, 0, 0] s), Inr s1)"
    and "rest_since s1 = rest_since (snd (pause_toggle (t_rest fr) [0, 0, 0, 0, 0] s))"
    and "paused s1 = paused (snd (pause_toggle (t_rest fr) [0, 0, 0, 0, 0] s))"
  using frame_step_fist [OF assms, of ok wScr hScr s]
  by (cases "paused (snd (pause_toggle (t_rest fr) [0, 0, 0, 0, 0] s))") auto

text \<open>
  One fist frame, by the state of the timer: unset, it is set to the frame's clock
  reading; set and old enough, the flag flips and the timer is cleared; set and too
  young, nothing changes.
\<close>

lemma fist_frame_pause_check:
  assumes "is_fist fr"
  shows "\<exists>s1. snd (frame_step ok wScr hScr fr u) = Inr s1
     \<and> (case rest_since u of
          None \<Rightarrow> toggles (fst (frame_step ok wScr hScr fr u)) = 0
            \<and> rest_since s1 = Some (t_rest fr) \<and> paused s1 = paused u
        | Some r \<Rightarrow>
            if rest_toggle_hold_sec \<le> t_rest fr - r
            then toggles (fst (frame_step ok wScr hScr fr u)) = 1
              \<and> rest_since s1 = None \<and> paused s1 = (\<not> paused u)
            else toggles (fst (frame_step ok wScr hScr fr u)) = 0
              \<and> rest_since s1 = Some r \<and> paused s1 = paused u)"
proof -
  obtain s1 where step: "frame_step ok wScr hScr fr u
        = (fst (pause_toggle (t_rest fr) [0, 0, 0, 0, 0] u), Inr s1)"
    and r: "rest_since s1 = rest_since (snd (pause_toggle (t_rest fr) [0, 0, 0, 0, 0] u))"
    and p: "paused s1 = paused (snd (pause_toggle (t_rest fr) [0, 0, 0, 0, 0] u))"
    using fist_frame_state [OF assms] by blast
  show ?thesis
    by (rule exI [of _ s1])
       (simp add: step r p pause_toggle_def toggles_def is_toggle_def split: option.splits)
qed

text \<open>The flag after a run of fists has flipped once for every toggle in its trace.\<close>

lemma fist_run_paused:
  assumes "\<forall>fr \<in> set frs. is_fist fr"
  shows "\<exists>s'. snd (main_loop ok wScr hScr frs s) = Inr s'
     \<and> paused s' = (if even (toggles (fst (main_loop ok wScr hScr frs s)))
                     then paused s else \<not> paused s)"
  using assms
proof (induction frs arbitrary: s)
  case Nil
  then show ?case by simp
next
  case (Cons fr frs)
  let ?pt = "pause_toggle (t_rest fr) [0, 0, 0, 0, 0] s"
  from Cons.prems have fist: "is_fist fr" and rest: "\<forall>fr \<in> set frs. is_fist fr"
    by auto
  obtain s1 where step: "frame_step ok wScr hScr fr s = (fst ?pt, Inr s1)"
    and p1: "paused s1 = paused (snd ?pt)"
    using fist_frame_state [OF fist] by blast
  have out: "fst (main_loop ok wScr hScr (fr # frs) s) = fst ?pt @ fst (main_loop ok wScr hScr frs s1)"
    and res: "snd (main_loop ok wScr hScr (fr # frs) s) = snd (main_loop ok wScr hScr frs s1)"
    by (simp_all add: step)
  from Cons.IH [OF rest, of s1] obtain s' where
    s': "snd (main_loop ok wScr hScr frs s1) = Inr s'"
    and p': "paused s' = (if even (toggles (fst (main_loop ok wScr hScr frs s1)))
                     then paused s1 else \<not> paused s1)"
    by blast
  have "paused s' = (if even (toggles (fst (main_loop ok wScr hScr (fr # frs) s)))
                     then paused s else \<not> paused s)"
    unfolding out by (simp add: p' p1 pause_toggle_parity)
  with s' show ?case unfolding res by blast
qed

text \<open>
  The toggle fires again within one hold: with the timer armed at \<open>r\<close>, a fist late
  enough toggles and clears the timer, the next fist arms it anew, and a third fist
  0.35 s after the second toggles back.
\<close>

lemma fist_refire:
  assumes "is_fist fa" and "is_fist fb" and "is_fist fc"
    and "rest_since u = Some r" and "rest_toggle_hold_sec \<le> t_rest fa - r"
    and "rest_toggle_hold_sec \<le> t_rest fc - t_rest fb"
  shows "toggles (fst (main_loop ok wScr hScr [fa, fb, fc] u)) = 2
     \<and> (\<exists>s'. snd (main_loop ok wScr hScr [fa, fb, fc] u) = Inr s'
           \<and> paused s' = paused u \<and> rest_since s' = None)"
proof -
  from fist_frame_pause_check [OF assms(1), of ok wScr hScr u] assms(4,5)
  obtain s1 where a: "snd (frame_step ok wScr hScr fa u) = Inr s1"
    "toggles (fst (frame_step ok wScr hScr fa u)) = 1"
    "rest_since s1 = None" "paused s1 = (\<not> paused u)"
    by auto
  from fist_frame_pause_check [OF assms(2), of ok wScr hScr s1] a(3)
  obtain s2 where b: "snd (frame_step ok wScr hScr fb s1) = Inr s2"
    "toggles (fst (frame_step ok wScr hScr fb s1)) = 0"
    "rest_since s2 = Some (t_rest fb)" "paused s2 = paused s1"
    by auto
  from fist_frame_pause_check [OF assms(3), of ok wScr hScr s2] b(3) assms(6)
  obtain s3 where c: "snd (frame_step ok wScr hScr fc s2) = Inr s3"
    "toggles (fst (frame_step ok wScr hScr fc s2)) = 1"
    "rest_since s3 = None" "paused s3 = (\<not> paused s2)"
    by auto
  have out: "fst (main_loop ok wScr hScr [fa, fb, fc] u)
      = fst (frame_step ok wScr hScr fa u) @ fst (frame_step ok wScr hScr fb s1)
        @ fst (frame_step ok wScr hScr fc s2)"
    and res: "snd (main_loop ok wScr hScr [fa, fb, fc] u) = Inr s3"
    by (simp_all add: fst_bind_res_Inr [OF a(1)] fst_bind_res_Inr [OF b(1)]
          fst_bind_res_Inr [OF c(1)] snd_bind_res_Inr_iff a(1) b(1) c(1))
  show ?thesis
    unfolding out res using a(2,4) b(2,4) c(2,3,4) by simp
qed

text \<open>
  C1, as the claim states it, fails: from the initial state, four consecutive fist
  frames read at 10, 10.5, 11 and 11.5 (one hold of 1.5 s, no other frame in between)
  toggle the pause twice, at 10.5 and again at 11.5.
\<close>

theorem fist_hold_toggles_twice_counterexample:
  "is_fist (fist_frame 10) \<and> is_fist (fist_frame 10.5)
   \<and> is_fist (fist_frame 11) \<and> is_fist (fist_frame 11.5)
   \<and> rest_toggle_hold_sec \<le> t_rest (fist_frame 11.5) - t_rest (fist_frame 10)
   \<and> fst (main_loop backend_ok 1920 1080
        [fist_frame 10, fist_frame 10.5, fist_frame 11, fist_frame 11.5] init_state)
       = [Log Log_paused, Log Log_active]
   \<and> toggles (fst (main_loop backend_ok 1920 1080
        [fist_frame 10, fist_frame 10.5, fist_frame 11, fist_frame 11.5] init_state)) = 2"
  by (simp add: eval_defs is_fist_def toggles_def is_toggle_def)

text \<open>
  C1, amended. A continuous sequence of fist frames with non-decreasing clock readings,
  starting with restSince unset, is processed to its end, and with D the time from its
  first to its last frame: the pause toggles at least once when D is at least the
  0.35 s hold threshold, the number of toggles times 0.35 is at most D, and hence there
  is exactly one toggle when 0.35 \<le> D < 0.7; the paused flag at the end has flipped
  once for every toggle. On a single fist frame: with restSince unset the frame sets it
  to its clock reading and does not toggle; with restSince set at least 0.35 s before,
  it flips the paused flag and clears restSince; with restSince set less than 0.35 s
  before, it changes neither. So the toggle clears restSince, the next fist frame sets
  it again, and the toggle fires again after a further 0.35 s of the same hold, with no
  frame other than a fist in between: three fists, the first late enough for an armed
  timer and the third 0.35 s after the second, toggle twice.
\<close>

theorem fist_hold_toggles:
  assumes "frs \<noteq> []" and "\<forall>fr \<in> set frs. is_fist fr" and "sorted (map t_rest frs)"
    and "rest_since s = None"
  shows "(\<exists>s'. snd (main_loop ok wScr hScr frs s) = Inr s'
           \<and> paused s' = (if even (toggles (fst (main_loop ok wScr hScr frs s)))
                           then paused s else \<not> paused s))
     \<and> rest_toggle_hold_sec * real (toggles (fst (main_loop ok wScr hScr frs s)))
          \<le> t_rest (last frs) - t_rest (hd frs)
     \<and> (rest_toggle_hold_sec \<le> t_rest (last frs) - t_rest (hd frs) \<longrightarrow>
          1 \<le> toggles (fst (main_loop ok wScr hScr frs s)))
     \<and> (rest_toggle_hold_sec \<le> t_rest (last frs) - t_rest (hd frs)
        \<and> t_rest (last frs) - t_rest (hd frs) < 2 * rest_toggle_hold_sec \<longrightarrow>
          toggles (fst (main_loop ok wScr hScr frs s)) = 1)
     \<and> (is_fist g \<longrightarrow>
          (\<exists>s1. snd (frame_step ok wScr hScr g u) = Inr s1
             \<and> (case rest_since u of
                  None \<Rightarrow> toggles (fst (frame_step ok wScr hScr g u)) = 0
                    \<and> rest_since s1 = Some (t_rest g) \<and> paused s1 = paused u
                | Some r \<Rightarrow>
                    if rest_toggle_hold_sec \<le> t_rest g - r
                    then toggles (fst (frame_step ok wScr hScr g u)) = 1
                      \<and> rest_since s1 = None \<and> paused s1 = (\<not> paused u)
                    else toggles (fst (frame_step ok wScr hScr g u)) = 0
                      \<and> rest_since s1 = Some r \<and> paused s1 = paused u)))
     \<and> (is_fist fa \<and> is_fist fb \<and> is_fist fc \<and> rest_since u = Some q
          \<and> rest_toggle_hold_sec \<le> t_rest fa - q
          \<and> rest_toggle_hold_sec \<le> t_rest fc - t_rest fb \<longrightarrow>
          toggles (fst (main_loop ok wScr hScr [fa, fb, fc] u)) = 2
        \<and> (\<exists>s'. snd (main_loop ok wScr hScr [fa, fb, fc] u) = Inr s'
              \<and> paused s' = paused u \<and> rest_since s' = None))"
proof -
  let ?D = "t_rest (last frs) - t_rest (hd frs)"
  let ?T = "toggles (fst (main_loop ok wScr hScr frs s))"
  have pos: "0 < rest_toggle_hold_sec" by (simp add: rest_toggle_hold_sec_def)
  from fist_run_upper [OF assms(2,3), of ok wScr hScr s] assms(1,4)
  have ends: "\<exists>s'. snd (main_loop ok wScr hScr frs s) = Inr s'"
    and upper: "rest_toggle_hold_sec * real ?T \<le> ?D"
    by blast+
  have lower: "1 \<le> ?T" if d: "rest_toggle_hold_sec \<le> ?D"
  proof -
    from assms(1) obtain fr frs' where frs: "frs = fr # frs'" by (cases frs) auto
    let ?pt = "pause_toggle (t_rest fr) [0, 0, 0, 0, 0] s"
    from assms(2) frs have fist: "is_fist fr" and rest: "\<forall>fr \<in> set frs'. is_fist fr"
      by auto
    obtain s1 where step: "frame_step ok wScr hScr fr s = (fst ?pt, Inr s1)"
      and rs1: "rest_since s1 = rest_since (snd ?pt)"
      using fist_frame_step [OF fist] by blast
    have armed: "rest_since s1 = Some (t_rest fr)"
      by (simp add: rs1 pause_toggle_fist_unset [OF assms(4)])
    have ne: "frs' \<noteq> []"
      using d pos frs by auto
    then have "last frs' \<in> set frs'" by simp
    moreover have "rest_toggle_hold_sec \<le> t_rest (last frs') - t_rest fr"
      using d frs ne by simp
    ultimately have "\<exists>x \<in> set frs'. rest_toggle_hold_sec \<le> t_rest x - t_rest fr"
      by blast
    from fist_run_lower [OF rest armed this, of ok wScr hScr]
    have "1 \<le> toggles (fst (main_loop ok wScr hScr frs' s1))" .
    moreover have "fst (main_loop ok wScr hScr frs s)
        = fst ?pt @ fst (main_loop ok wScr hScr frs' s1)"
      unfolding frs by (simp add: step)
    ultimately show ?thesis by simp
  qed
  have once: "?T = 1" if d: "rest_toggle_hold_sec \<le> ?D" and u: "?D < 2 * rest_toggle_hold_sec"
  proof -
    from upper u have "rest_toggle_hold_sec * real ?T < rest_toggle_hold_sec * 2" by simp
    with pos have "real ?T < 2" by simp
    with lower [OF d] show ?thesis by simp
  qed
  have flag: "\<exists>s'. snd (main_loop ok wScr hScr frs s) = Inr s'
           \<and> paused s' = (if even ?T then paused s else \<not> paused s)"
    by (rule fist_run_paused [OF assms(2)])
  have frame: "is_fist g \<longrightarrow>
          (\<exists>s1. snd (frame_step ok wScr hScr g u) = Inr s1
             \<and> (case rest_since u of
                  None \<Rightarrow> toggles (fst (frame_step ok wScr hScr g u)) = 0
                    \<and> rest_since s1 = Some (t_rest g) \<and> paused s1 = paused u
                | Some r \<Rightarrow>
                    if rest_toggle_hold_sec \<le> t_rest g - r
                    then toggles (fst (frame_step ok wScr hScr g u)) = 1
                      \<and> rest_since s1 = None \<and> paused s1 = (\<not> paused u)
                    else toggles (fst (frame_step ok wScr hScr g u)) = 0
                      \<and> rest_since s1 = Some r \<and> paused s1 = paused u))"
    using fist_frame_pause_check [of g ok wScr hScr u] by blast
  have again: "is_fist fa \<and> is_fist fb \<and> is_fist fc \<and> rest_since u = Some q
          \<and> rest_toggle_hold_sec \<le> t_rest fa - q
          \<and> rest_toggle_hold_sec \<le> t_rest fc - t_rest fb \<longrightarrow>
          toggles (fst (main_loop ok wScr hScr [fa, fb, fc] u)) = 2
        \<and> (\<exists>s'. snd (main_loop ok wScr hScr [fa, fb, fc] u) = Inr s'
              \<and> paused s' = paused u \<and> rest_since s' = None)"
    using fist_refire [of fa fb fc u q ok wScr hScr] by blast
  have pair: "rest_toggle_hold_sec \<le> ?D \<longrightarrow> 1 \<le> ?T"
    "rest_toggle_hold_sec \<le> ?D \<and> ?D < 2 * rest_toggle_hold_sec \<longrightarrow> ?T = 1"
    using lower once by blast+
  from flag upper pair frame again show ?thesis by (intro conjI)
qed

theorem fist_hold_toggles_witness:
  "[fist_frame 10, fist_frame 10.2, fist_frame 10.4] \<noteq> []
   \<and> is_fist (fist_frame 10) \<and> is_fist (fist_frame 10.2) \<and> is_fist (fist_frame 10.4)
   \<and> sorted (map t_rest [fist_frame 10, fist_frame 10.2, fist_frame 10.4])
   \<and> rest_since init_state = None
   \<and> rest_toggle_hold_sec \<le> t_rest (fist_frame 10.4) - t_rest (fist_frame 10)
   \<and> t_rest (fist_frame 10.4) - t_rest (fist_frame 10) < 2 * rest_toggle_hold_sec
   \<and> toggles (fst (main_loop backend_ok 1920 1080
        [fist_frame 10, fist_frame 10.2, fist_frame 10.4] init_state)) = 1
   \<and> (\<exists>s'. snd (main_loop backend_ok 1920 1080
                [fist_frame 10, fist_frame 10.2, fist_frame 10.4] init_state) = Inr s'
          \<and> paused s')
   \<and> is_fist (fist_frame 10.5) \<and> is_fist (fist_frame 11) \<and> is_fist (fist_frame 11.5)
   \<and> rest_since (init_state\<lparr>rest_since := Some 10\<rparr>) = Some 10
   \<and> rest_toggle_hold_sec \<le> t_rest (fist_frame 10.5) - 10
   \<and> rest_toggle_hold_sec \<le> t_rest (fist_frame 11.5) - t_rest (fist_frame 11)
   \<and> toggles (fst (main_loop backend_ok 1920 1080
        [fist_frame 10.5, fist_frame 11, fist_frame 11.5]
        (init_state\<lparr>rest_since := Some 10\<rparr>))) = 2
   \<and> (\<exists>s1. snd (frame_step backend_ok 1920 1080 (fist_frame 10.5)
                (init_state\<lparr>rest_since := Some 10\<rparr>)) = Inr s1
          \<and> rest_since s1 = None \<and> paused s1)"
proof -
  let ?frs = "[fist_frame 10, fist_frame 10.2, fist_frame 10.4]"
  let ?u = "init_state\<lparr>rest_since := Some 10\<rparr>"
  have fist: "is_fist (fist_frame t)" for t
    by (simp add: is_fist_def fist_frame_def frame_at_def landmarks_def)
  have clock: "t_rest (fist_frame t) = t" for t
    by (simp add: fist_frame_def frame_at_def)
  have h: "?frs \<noteq> []" "\<forall>fr \<in> set ?frs. is_fist fr" "sorted (map t_rest ?frs)"
    "rest_since init_state = None"
    by (simp_all add: fist clock init_state_def)
  have d: "rest_toggle_hold_sec \<le> t_rest (last ?frs) - t_rest (hd ?frs)
      \<and> t_rest (last ?frs) - t_rest (hd ?frs) < 2 * rest_toggle_hold_sec"
    by (simp add: clock rest_toggle_hold_sec_def)
  have k: "rest_since ?u = Some 10" "\<not> paused ?u"
    "rest_toggle_hold_sec \<le> t_rest (fist_frame 10.5) - 10"
    "rest_toggle_hold_sec \<le> t_rest (fist_frame 11.5) - t_rest (fist_frame 11)"
    by (simp_all add: clock rest_toggle_hold_sec_def init_state_def)
  note T = fist_hold_toggles [OF h, where ok = backend_ok and wScr = 1920 and hScr = 1080
       and g = "fist_frame 10.5" and u = ?u
       and fa = "fist_frame 10.5" and fb = "fist_frame 11" and fc = "fist_frame 11.5"
       and q = 10]
  from T d have one: "toggles (fst (main_loop backend_ok 1920 1080 ?frs init_state)) = 1"
    by blast
  from T obtain s' where r: "snd (main_loop backend_ok 1920 1080 ?frs init_state) = Inr s'"
    and p: "paused s' = (if even (toggles (fst (main_loop backend_ok 1920 1080 ?frs init_state)))
                      then paused init_state else \<not> paused init_state)"
    by blast
  from p have "paused s'" unfolding one by (simp add: init_state_def)
  with r have flag: "\<exists>s'. snd (main_loop backend_ok 1920 1080 ?frs init_state) = Inr s' \<and> paused s'"
    by blast
  from T fist k have two: "toggles (fst (main_loop backend_ok 1920 1080
        [fist_frame 10.5, fist_frame 11, fist_frame 11.5] ?u)) = 2"
    by blast
  from T fist obtain s1 where
    "snd (frame_step backend_ok 1920 1080 (fist_frame 10.5) ?u) = Inr s1"
    and "case rest_since ?u of
           None \<Rightarrow> toggles (fst (frame_step backend_ok 1920 1080 (fist_frame 10.5) ?u)) = 0
             \<and> rest_since s1 = Some (t_rest (fist_frame 10.5)) \<and> paused s1 = paused ?u
         | Some r \<Rightarrow>
             if rest_toggle_hold_sec \<le> t_rest (fist_frame 10.5) - r
             then toggles (fst (frame_step backend_ok 1920 1080 (fist_frame 10.5) ?u)) = 1
               \<and> rest_since s1 = None \<and> paused s1 = (\<not> paused ?u)
             else toggles (fst (frame_step backend_ok 1920 1080 (fist_frame 10.5) ?u)) = 0
               \<and> rest_since s1 = Some r \<and> paused s1 = paused ?u"
    by blast
  with k have frame: "\<exists>s1. snd (frame_step backend_ok 1920 1080 (fist_frame 10.5) ?u) = Inr s1
          \<and> rest_since s1 = None \<and> paused s1"
    by simp
  have e: "sorted (map t_rest ?frs)"
    "rest_toggle_hold_sec \<le> t_rest (fist_frame 10.4) - t_rest (fist_frame 10)"
    "t_rest (fist_frame 10.4) - t_rest (fist_frame 10) < 2 * rest_toggle_hold_sec"
    using h(3) d by simp_all
  from h(1) fist e(1) h(4) e(2,3) one flag k(1,3,4) two frame
  show ?thesis by (intro conjI)
qed

end
